theory Spec2Isabelle
  imports Main "HOL-Library.Sublist"
begin

text \<open>
  The knowledge website draws a tree of categories with D3 and shows the content of the
  selected node in a panel. This theory embeds the state of the tree module
  (\<open>docs/js/tree.js\<close>: expanding, collapsing, selecting, the landing policies) and the
  rendering rules of the content panel, and proves the properties stated of them.
\<close>

section \<open>Values of the tree data\<close>

text \<open>
  The fields \<open>name\<close> and \<open>slug\<close> of the tree data are read from JSON: a field is
  absent (\<open>undefined\<close> when read), \<open>null\<close>, or a string.
\<close>

datatype jsval = JUndefined | JNull | JStr string

text \<open>JavaScript truthiness of such a value: only a non-empty string is truthy.\<close>

fun truthy :: "jsval \<Rightarrow> bool" where
  "truthy (JStr s) = (s \<noteq> [])"
| "truthy JUndefined = False"
| "truthy JNull = False"

text \<open>
  The JSON payload given to \<open>loadData\<close>: a node is \<open>null\<close> or an object with the fields
  \<open>name\<close>, \<open>slug\<close> and \<open>children\<close> (absent or \<open>null\<close>: \<open>None\<close>; an array: \<open>Some\<close>).
\<close>

datatype tdata = TNull | TObj (tname: jsval) (tslug: jsval) (tchildren: "tdata list option")

text \<open>
  The exceptions: a TypeError (a field read from \<open>null\<close>, \<open>new URL\<close> of a string that is
  no URL), a rejected fetch, the \<open>Error\<close> that \<open>loadContent\<close> throws for a response that
  is not ok, and the SyntaxError of a body that is no JSON.
\<close>

datatype error = TypeError | FetchError | NotFoundError | SyntaxError

section \<open>Hierarchy nodes\<close>

text \<open>
  A node of \<open>d3.hierarchy\<close>: its \<open>id\<close> (undefined until \<open>loadData\<close> assigns it),
  \<open>data.name\<close>, \<open>data.slug\<close>, the visible \<open>children\<close> and the hidden \<open>_children\<close>.
  A reference that is \<open>null\<close> or \<open>undefined\<close> is \<open>None\<close>. The structure is a tree and is
  never edited after loading, so a node is referred to by its position: the child
  indices on the way from the root; its \<open>parent\<close> is the node one index shorter.
\<close>

datatype hnode = HNode (nid: "nat option") (dname: jsval) (dslug: jsval)
  (children: "hnode list option") (hidden: "hnode list option")

text \<open>\<open>node.children || node._children\<close>\<close>

definition kids :: "hnode \<Rightarrow> hnode list option" where
  "kids d = (case children d of Some cs \<Rightarrow> Some cs | None \<Rightarrow> hidden d)"

fun node_at :: "hnode \<Rightarrow> nat list \<Rightarrow> hnode option" where
  "node_at d [] = Some d"
| "node_at d (i # p) =
     (case kids d of
        None \<Rightarrow> None
      | Some cs \<Rightarrow> if i < length cs then node_at (cs ! i) p else None)"

text \<open>The mutation of one node object inside the tree: \<open>f\<close> applied at position \<open>p\<close>.\<close>

fun update_at :: "(hnode \<Rightarrow> hnode) \<Rightarrow> nat list \<Rightarrow> hnode \<Rightarrow> hnode" where
  "update_at f [] d = f d"
| "update_at f (i # p) d =
     (case children d of
        Some cs \<Rightarrow>
          if i < length cs
          then HNode (nid d) (dname d) (dslug d) (Some (cs[i := update_at f p (cs ! i)])) (hidden d)
          else d
      | None \<Rightarrow>
          (case hidden d of
             Some hs \<Rightarrow>
               if i < length hs
               then HNode (nid d) (dname d) (dslug d) None (Some (hs[i := update_at f p (hs ! i)]))
               else d
           | None \<Rightarrow> d))"

text \<open>
  \<open>d3.hierarchy(data, d => d.children)\<close>: the accessor is applied to the data of every
  node, so a \<open>null\<close> node raises a TypeError; \<open>children\<close> is set only for a non-empty
  array.
\<close>

fun hierarchy :: "tdata \<Rightarrow> error + hnode"
  and hierarchy_list :: "tdata list \<Rightarrow> error + hnode list" where
  "hierarchy TNull = Inl TypeError"
| "hierarchy (TObj n s c) =
     (case c of
        None \<Rightarrow> Inr (HNode None n s None None)
      | Some xs \<Rightarrow>
          (case hierarchy_list xs of
             Inl e \<Rightarrow> Inl e
           | Inr ks \<Rightarrow> Inr (HNode None n s (if length ks = 0 then None else Some ks) None)))"
| "hierarchy_list [] = Inr []"
| "hierarchy_list (x # xs) =
     (case hierarchy x of
        Inl e \<Rightarrow> Inl e
      | Inr k \<Rightarrow> (case hierarchy_list xs of Inl e \<Rightarrow> Inl e | Inr ks \<Rightarrow> Inr (k # ks)))"

section \<open>Expanding and collapsing\<close>

fun collapse :: "hnode \<Rightarrow> hnode" where
  "collapse (HNode a n s c h) =
     (case c of
        Some cs \<Rightarrow> HNode a n s None (Some (map collapse cs))
      | None \<Rightarrow> HNode a n s c h)"

fun toggle :: "hnode \<Rightarrow> hnode" where
  "toggle (HNode a n s c h) =
     (case c of
        Some cs \<Rightarrow> HNode a n s None (Some cs)
      | None \<Rightarrow>
          (case h of
             Some hs \<Rightarrow> HNode a n s (Some hs) None
           | None \<Rightarrow> HNode a n s c h))"

text \<open>The first statement of \<open>expandAll\<close> and of \<open>expandPath\<close>: show the hidden children.\<close>

fun unhide :: "hnode \<Rightarrow> hnode" where
  "unhide (HNode a n s c h) =
     (case h of Some hs \<Rightarrow> HNode a n s (Some hs) None | None \<Rightarrow> HNode a n s c h)"

fun expandAll :: "hnode \<Rightarrow> hnode" where
  "expandAll (HNode a n s c h) =
     (case h of
        Some hs \<Rightarrow> HNode a n s (Some (map expandAll hs)) None
      | None \<Rightarrow>
          (case c of
             Some cs \<Rightarrow> HNode a n s (Some (map expandAll cs)) None
           | None \<Rightarrow> HNode a n s c h))"

text \<open>\<open>children.find(c => c.data.name === targetName)\<close>, as the index of the child found.\<close>

fun find_child :: "string \<Rightarrow> hnode list \<Rightarrow> nat option" where
  "find_child t [] = None"
| "find_child t (c # cs) =
     (if dname c = JStr t then Some 0 else map_option Suc (find_child t cs))"

text \<open>
  \<open>expandPath(node, pathArray, index)\<close> and \<open>findNodeByPath(node, pathArray, index)\<close>: the
  second argument here is the part of \<open>pathArray\<close> from \<open>index\<close> on, so
  \<open>index >= pathArray.length\<close> is the empty list. \<open>findNodeByPath\<close> returns the position
  of the node found, relative to \<open>node\<close>.
\<close>

fun expandPath :: "hnode \<Rightarrow> string list \<Rightarrow> hnode" where
  "expandPath d [] = d"
| "expandPath d (t # rest) =
     (let d1 = unhide d in
      case children d1 of
        None \<Rightarrow> d1
      | Some cs \<Rightarrow>
          (case find_child t cs of
             None \<Rightarrow> d1
           | Some i \<Rightarrow>
               HNode (nid d1) (dname d1) (dslug d1)
                 (Some (cs[i := expandPath (cs ! i) rest])) (hidden d1)))"

fun findNodeByPath :: "hnode \<Rightarrow> string list \<Rightarrow> nat list option" where
  "findNodeByPath d [] = Some []"
| "findNodeByPath d (t # rest) =
     (case kids d of
        None \<Rightarrow> None
      | Some cs \<Rightarrow>
          (case find_child t cs of
             None \<Rightarrow> None
           | Some i \<Rightarrow> map_option ((#) i) (findNodeByPath (cs ! i) rest)))"

definition isLeaf :: "hnode \<Rightarrow> bool" where
  "isLeaf d = (children d = None \<and> hidden d = None)"

text \<open>\<open>isRoot(d)\<close> is \<open>!d.parent\<close>: the node at the empty position.\<close>

definition isRoot :: "nat list \<Rightarrow> bool" where
  "isRoot p = (p = [])"

definition hasContent :: "hnode \<Rightarrow> bool" where
  "hasContent d = (dslug d \<noteq> JNull \<and> dslug d \<noteq> JUndefined)"

definition isCollapsed :: "hnode \<Rightarrow> bool" where
  "isCollapsed r = (case children r of None \<Rightarrow> True | Some cs \<Rightarrow> length cs = 0)"

section \<open>Visible nodes and identifiers\<close>

text \<open>
  \<open>node.descendants()\<close> lists the nodes reached through \<open>children\<close> in breadth-first
  order: depth by depth, each depth from left to right. \<open>level k d\<close> holds the positions
  at depth \<open>k\<close>.
\<close>

fun level :: "nat \<Rightarrow> hnode \<Rightarrow> nat list list" where
  "level 0 d = [[]]"
| "level (Suc k) d =
     (case children d of
        None \<Rightarrow> []
      | Some cs \<Rightarrow> concat (map (\<lambda>i. map ((#) i) (level k (cs ! i))) [0..<length cs]))"

fun height :: "hnode \<Rightarrow> nat" where
  "height (HNode a n s c h) =
     (case c of None \<Rightarrow> 0 | Some cs \<Rightarrow> Suc (fold max (map height cs) 0))"

definition descendants :: "hnode \<Rightarrow> nat list list" where
  "descendants d = concat (map (\<lambda>k. level k d) [0..<Suc (height d)])"

fun index_of :: "'a list \<Rightarrow> 'a \<Rightarrow> nat" where
  "index_of [] y = 0"
| "index_of (x # xs) y = (if x = y then 0 else Suc (index_of xs y))"

text \<open>
  \<open>let i = 0; root.descendants().forEach(d => { d.id = i++; })\<close>: the node at a position
  gets the index of that position in the breadth-first order.
\<close>

fun set_ids :: "nat list list \<Rightarrow> nat list \<Rightarrow> hnode \<Rightarrow> hnode"
  and set_ids_list :: "nat list list \<Rightarrow> nat list \<Rightarrow> nat \<Rightarrow> hnode list \<Rightarrow> hnode list" where
  "set_ids order pos (HNode a n s c h) =
     HNode (if pos \<in> set order then Some (index_of order pos) else a) n s
       (case c of None \<Rightarrow> None | Some cs \<Rightarrow> Some (set_ids_list order pos 0 cs)) h"
| "set_ids_list order pos i [] = []"
| "set_ids_list order pos i (c # cs) =
     set_ids order (pos @ [i]) c # set_ids_list order pos (Suc i) cs"

definition assign_ids :: "hnode \<Rightarrow> hnode" where
  "assign_ids r = set_ids (descendants r) [] r"

text \<open>The label drawn for a node: \<open>.text(d => d.data.name)\<close>, empty for a value that is \<open>null\<close> or \<open>undefined\<close>.\<close>

fun label :: "hnode \<Rightarrow> string" where
  "label d = (case dname d of JStr s \<Rightarrow> s | _ \<Rightarrow> [])"

text \<open>What \<open>update\<close> draws: one labelled node for each of \<open>root.descendants()\<close>.\<close>

definition rendered :: "hnode \<Rightarrow> string list" where
  "rendered r = List.map_filter (\<lambda>q. map_option label (node_at r q)) (descendants r)"

section \<open>The state of the module\<close>

datatype landing = LCollapsed | LExpanded | LPath | LOther

record config =
  defaultLanding :: landing
  defaultPath :: "string list"

text \<open>
  \<open>onNodeSelect\<close> tells whether a callback is set; \<open>calls\<close> logs the arguments of its
  invocations; \<open>timers\<close> holds the nodes whose selection \<open>setTimeout\<close> has scheduled.
\<close>

record tree_state =
  root :: hnode
  selectedNode :: "nat list option"
  onNodeSelect :: bool
  isTreeExpanded :: bool
  calls :: "(jsval \<times> jsval) list"
  timers :: "nat list list"

definition applyDefaultLandingState :: "config \<Rightarrow> hnode \<Rightarrow> hnode \<times> bool" where
  "applyDefaultLandingState cfg r =
     (if defaultLanding cfg = LCollapsed then
        (case children r of
           Some cs \<Rightarrow> (HNode (nid r) (dname r) (dslug r) None (Some (map collapse cs)), False)
         | None \<Rightarrow> (r, False))
      else if defaultLanding cfg = LExpanded then (expandAll r, True)
      else if defaultLanding cfg = LPath \<and> length (defaultPath cfg) > 0 then
        (let r1 = (case children r of
                     Some cs \<Rightarrow> HNode (nid r) (dname r) (dslug r) (Some (map collapse cs)) (hidden r)
                   | None \<Rightarrow> r)
         in (expandPath r1 (defaultPath cfg), True))
      else (r, False))"

definition applyDefaultSelection :: "config \<Rightarrow> hnode \<Rightarrow> nat list list" where
  "applyDefaultSelection cfg r =
     (if defaultLanding cfg = LExpanded then (if hasContent r then [[]] else [])
      else if defaultLanding cfg = LPath \<and> length (defaultPath cfg) > 0 then
        (case findNodeByPath r (defaultPath cfg) of
           None \<Rightarrow> []
         | Some p \<Rightarrow>
             (case node_at r p of
                None \<Rightarrow> []
              | Some d \<Rightarrow> if hasContent d then [p] else []))
      else [])"

text \<open>
  \<open>loadData(data)\<close> on the state that \<open>init\<close> leaves: nothing selected, the tree not yet
  expanded; \<open>cb\<close> tells whether \<open>init\<close> was given a callback.
\<close>

definition loadData :: "config \<Rightarrow> bool \<Rightarrow> tdata \<Rightarrow> error + tree_state" where
  "loadData cfg cb data =
     (case hierarchy data of
        Inl e \<Rightarrow> Inl e
      | Inr r0 \<Rightarrow>
          (let r1 = assign_ids r0;
               (r2, ex) = applyDefaultLandingState cfg r1
           in Inr \<lparr> root = r2, selectedNode = None, onNodeSelect = cb,
                    isTreeExpanded = ex, calls = [],
                    timers = applyDefaultSelection cfg r2 \<rparr>))"

text \<open>\<open>selectNode(d)\<close> for the node \<open>d\<close> at position \<open>p\<close>.\<close>

definition selectNode :: "tree_state \<Rightarrow> nat list \<Rightarrow> tree_state" where
  "selectNode st p =
     (case node_at (root st) p of
        None \<Rightarrow> st
      | Some d \<Rightarrow>
          (let st1 = st\<lparr> selectedNode := Some p \<rparr>
           in if onNodeSelect st1 \<and> truthy (dslug d)
              then st1\<lparr> calls := calls st1 @ [(dslug d, dname d)] \<rparr>
              else st1))"

definition clearSelection :: "tree_state \<Rightarrow> tree_state" where
  "clearSelection st = st\<lparr> selectedNode := None \<rparr>"

text \<open>The timers run: each scheduled \<open>selectNode\<close> is called, in order.\<close>

definition runTimers :: "tree_state \<Rightarrow> tree_state" where
  "runTimers st = foldl selectNode (st\<lparr> timers := [] \<rparr>) (timers st)"

definition handleNodeClick :: "tree_state \<Rightarrow> nat list \<Rightarrow> tree_state" where
  "handleNodeClick st p =
     (case node_at (root st) p of
        None \<Rightarrow> st
      | Some d \<Rightarrow>
          if isRoot p \<and> isCollapsed (root st)
          then st\<lparr> isTreeExpanded := True, root := update_at toggle p (root st) \<rparr>
          else
            (let st1 = (if hasContent d then selectNode st p else st)
             in if children d \<noteq> None \<or> hidden d \<noteq> None
                then st1\<lparr> root := update_at toggle p (root st1) \<rparr>
                else st1))"

text \<open>
  \<open>selectedNode.ancestors()\<close>: the node, its parent, and so on up to the root, which are
  the nodes at the prefixes of its position, longest first.
\<close>

definition ancestors :: "hnode \<Rightarrow> nat list \<Rightarrow> hnode list" where
  "ancestors r p = rev (List.map_filter (node_at r) (prefixes p))"

definition isOnActivePath :: "tree_state \<Rightarrow> hnode \<Rightarrow> bool" where
  "isOnActivePath st d =
     (case selectedNode st of
        None \<Rightarrow> False
      | Some p \<Rightarrow> list_ex (\<lambda>a. nid a = nid d) (ancestors (root st) p))"

text \<open>The class \<open>node--active\<close> of \<open>getNodeClass\<close>.\<close>

definition nodeActive :: "tree_state \<Rightarrow> hnode \<Rightarrow> bool" where
  "nodeActive st d = (selectedNode st \<noteq> None \<and> isOnActivePath st d)"

text \<open>The class \<open>link--active\<close> of the link that ends in the node at position \<open>q\<close>.\<close>

definition linkActive :: "tree_state \<Rightarrow> nat list \<Rightarrow> bool" where
  "linkActive st q =
     (case selectedNode st of
        None \<Rightarrow> False
      | Some p \<Rightarrow>
          (case node_at (root st) q of
             None \<Rightarrow> False
           | Some d \<Rightarrow>
               nid d \<in> set (map nid (ancestors (root st) p)) \<and> q \<noteq> [] \<and>
               (case node_at (root st) (butlast q) of
                  None \<Rightarrow> False
                | Some par \<Rightarrow> nid par \<in> set (map nid (ancestors (root st) p)))))"

section \<open>The content panel\<close>

text \<open>
  The built-ins of the browser that the panel calls: the month name and the year that
  \<open>Date\<close> gives for a date string, and the \<open>hostname\<close> of \<open>new URL(s)\<close>, which is \<open>None\<close>
  where the constructor raises a TypeError.
\<close>

record env =
  monthName :: "string \<Rightarrow> string"
  fullYear :: "string \<Rightarrow> string"
  hostname :: "string \<Rightarrow> string option"

text \<open>
  An HTML string is kept as a list of nodes that serialises to it. Parsing the string,
  as an assignment to \<open>innerHTML\<close> does, gives these nodes with every run of adjacent text
  nodes as one text node and without empty text nodes (\<open>merge_text\<close>); reading \<open>innerHTML\<close>
  gives a string again. Apart from this merging, serialising and parsing are taken to
  give back the same nodes.
\<close>

datatype dom = Text string | Elem (tag: string) (attrs: "(string \<times> string) list") (elems: "dom list")

fun textContent :: "dom \<Rightarrow> string" where
  "textContent (Text s) = s"
| "textContent (Elem t a ks) = concat (map textContent ks)"

fun merge_text :: "dom list \<Rightarrow> dom list" where
  "merge_text [] = []"
| "merge_text (Elem t a ks # ns) = Elem t a (merge_text ks) # merge_text ns"
| "merge_text (Text s # ns) =
     (case merge_text ns of
        Text s' # ms \<Rightarrow> Text (s @ s') # ms
      | ms \<Rightarrow> if s = [] then ms else Text s # ms)"

text \<open>\<open>querySelector('p')\<close>: the first \<open>p\<close> element in document order; \<open>remove_p\<close> takes it out.\<close>

fun query_p :: "dom list \<Rightarrow> dom option" where
  "query_p [] = None"
| "query_p (Text s # ns) = query_p ns"
| "query_p (Elem t a ks # ns) =
     (if t = ''p'' then Some (Elem t a ks)
      else (case query_p ks of Some e \<Rightarrow> Some e | None \<Rightarrow> query_p ns))"

fun remove_p :: "dom list \<Rightarrow> dom list" where
  "remove_p [] = []"
| "remove_p (Text s # ns) = Text s # remove_p ns"
| "remove_p (Elem t a ks # ns) =
     (if t = ''p'' then ns
      else (case query_p ks of
              Some e \<Rightarrow> Elem t a (remove_p ks) # ns
            | None \<Rightarrow> Elem t a ks # remove_p ns))"

datatype collab = NoCollab | CollabStr string | CollabList "string list"

text \<open>The content record of the data contract; an absent field is \<open>JUndefined\<close> or \<open>None\<close>.\<close>

record crecord =
  title :: jsval
  date :: jsval
  collaborators :: collab
  description :: jsval
  image :: jsval
  content :: "dom list option"
  references :: "string list option"
  resources :: "string list option"

text \<open>
  The elements that \<open>init\<close> looks up; \<open>None\<close> is an element that the page does not have.
  \<open>contentSection\<close> and \<open>treeSection\<close> hold whether the class \<open>visible\<close> or \<open>has-content\<close> is
  set; a pair holds the text or HTML of an element and its \<open>style.display\<close>.
\<close>

record panel =
  contentSection :: "bool option"
  contentTitle :: "string option"
  contentMeta :: "string option"
  contentDescription :: "(string \<times> string) option"
  contentImageContainer :: "(string \<times> string) option"
  contentBody :: "dom list option"
  contentFooter :: "string option"
  treeSection :: "bool option"
  currentSlug :: jsval

text \<open>A value assigned to \<open>textContent\<close>, and a value inside a template string.\<close>

fun text_of :: "jsval \<Rightarrow> string" where
  "text_of (JStr s) = s"
| "text_of JUndefined = []"
| "text_of JNull = []"

fun template_of :: "jsval \<Rightarrow> string" where
  "template_of (JStr s) = s"
| "template_of JUndefined = ''undefined''"
| "template_of JNull = ''null''"

definition js_or :: "jsval \<Rightarrow> jsval \<Rightarrow> jsval" where
  "js_or a b = (if truthy a then a else b)"

definition nl :: string where
  "nl = [CHR 0x0A]"

definition spaces :: "nat \<Rightarrow> string" where
  "spaces n = replicate n (CHR '' '')"

text \<open>\<open>xs.join(sep)\<close>\<close>

fun join :: "string \<Rightarrow> string list \<Rightarrow> string" where
  "join sep [] = []"
| "join sep [x] = x"
| "join sep (x # y # ys) = x @ sep @ join sep (y # ys)"

definition formatDate :: "env \<Rightarrow> jsval \<Rightarrow> string" where
  "formatDate e dateStr =
     (if \<not> truthy dateStr then []
      else monthName e (text_of dateStr) @ '' '' @ fullYear e (text_of dateStr))"

definition metaHtml :: "env \<Rightarrow> crecord \<Rightarrow> string" where
  \<open>metaHtml e data =
     (if truthy (date data)
      then ''<span class="content-meta-item">'' @ formatDate e (date data) @ ''</span>''
      else []) @
     (case collaborators data of
        NoCollab \<Rightarrow> []
      | CollabStr s \<Rightarrow>
          (if length s > 0 then ''<span class="content-meta-item">'' @ s @ ''</span>'' else [])
      | CollabList xs \<Rightarrow>
          (if length xs > 0
           then ''<span class="content-meta-item">'' @ join '', '' xs @ ''</span>''
           else []))\<close>

text \<open>\<open>s.replace('www.', '')\<close>: the first occurrence of \<open>www.\<close> is taken out.\<close>

fun replace_www :: "string \<Rightarrow> string" where
  "replace_www [] = []"
| "replace_www (c # cs) =
     (if prefix ''www.'' (c # cs) then drop 4 (c # cs) else c # replace_www cs)"

text \<open>One item of \<open>data.resources.map(...)\<close>; the error is the TypeError of \<open>new URL\<close>.\<close>

definition resourceItem :: "env \<Rightarrow> string \<Rightarrow> error + string" where
  \<open>resourceItem e res =
     (if prefix ''http'' res then
        (case hostname e res of
           None \<Rightarrow> Inl TypeError
         | Some h \<Rightarrow>
             Inr (''<li><a href="'' @ res @ ''" target="_blank">'' @ replace_www h @ ''</a></li>''))
      else Inr (''<li>'' @ res @ ''</li>''))\<close>

fun resourceItems :: "env \<Rightarrow> string list \<Rightarrow> error + string list" where
  "resourceItems e [] = Inr []"
| "resourceItems e (r # rs) =
     (case resourceItem e r of
        Inl x \<Rightarrow> Inl x
      | Inr h \<Rightarrow> (case resourceItems e rs of Inl x \<Rightarrow> Inl x | Inr hs \<Rightarrow> Inr (h # hs)))"

definition referencesHtml :: "crecord \<Rightarrow> string" where
  \<open>referencesHtml data =
     (case references data of
        None \<Rightarrow> []
      | Some refs \<Rightarrow>
          if length refs > 0 then
            nl @ spaces 10 @ ''<div class="content-references">'' @
            nl @ spaces 12 @ ''<span class="content-references-label">references</span>'' @
            nl @ spaces 12 @ ''<ul class="content-references-list">'' @
              concat (map (\<lambda>ref. ''<li>'' @ ref @ ''</li>'') refs) @ ''</ul>'' @
            nl @ spaces 10 @ ''</div>'' @
            nl @ spaces 8
          else [])\<close>

definition resourcesHtml :: "env \<Rightarrow> crecord \<Rightarrow> error + string" where
  \<open>resourcesHtml e data =
     (case resources data of
        None \<Rightarrow> Inr []
      | Some ress \<Rightarrow>
          if length ress > 0 then
            (case resourceItems e ress of
               Inl x \<Rightarrow> Inl x
             | Inr items \<Rightarrow>
                 Inr (nl @ spaces 10 @ ''<div class="content-resources">'' @
                      nl @ spaces 12 @ ''<span class="content-references-label">resources</span>'' @
                      nl @ spaces 12 @ ''<ul class="content-references-list">'' @
                        concat items @ ''</ul>'' @
                      nl @ spaces 10 @ ''</div>'' @
                      nl @ spaces 8))
          else Inr [])\<close>

text \<open>
  An assignment under the guard \<open>if (element)\<close>: it takes place only where the page has
  the element.
\<close>

definition set_title :: "string \<Rightarrow> panel \<Rightarrow> panel" where
  "set_title t p = (case contentTitle p of None \<Rightarrow> p | Some _ \<Rightarrow> p\<lparr> contentTitle := Some t \<rparr>)"

definition set_meta :: "string \<Rightarrow> panel \<Rightarrow> panel" where
  "set_meta h p = (case contentMeta p of None \<Rightarrow> p | Some _ \<Rightarrow> p\<lparr> contentMeta := Some h \<rparr>)"

definition set_description :: "string \<Rightarrow> string \<Rightarrow> panel \<Rightarrow> panel" where
  "set_description t disp p =
     (case contentDescription p of
        None \<Rightarrow> p
      | Some _ \<Rightarrow> p\<lparr> contentDescription := Some (t, disp) \<rparr>)"

definition set_image :: "string \<Rightarrow> string \<Rightarrow> panel \<Rightarrow> panel" where
  "set_image h disp p =
     (case contentImageContainer p of
        None \<Rightarrow> p
      | Some _ \<Rightarrow> p\<lparr> contentImageContainer := Some (h, disp) \<rparr>)"

definition set_image_html :: "string \<Rightarrow> panel \<Rightarrow> panel" where
  "set_image_html h p =
     (case contentImageContainer p of
        None \<Rightarrow> p
      | Some (_, disp) \<Rightarrow> p\<lparr> contentImageContainer := Some (h, disp) \<rparr>)"

definition set_body :: "dom list \<Rightarrow> panel \<Rightarrow> panel" where
  "set_body ns p = (case contentBody p of None \<Rightarrow> p | Some _ \<Rightarrow> p\<lparr> contentBody := Some ns \<rparr>)"

definition set_footer :: "string \<Rightarrow> panel \<Rightarrow> panel" where
  "set_footer h p = (case contentFooter p of None \<Rightarrow> p | Some _ \<Rightarrow> p\<lparr> contentFooter := Some h \<rparr>)"

text \<open>
  The blocks of \<open>renderContent\<close>, one for each element, in the order of the source. The
  description block parses \<open>data.content\<close> into \<open>tempDiv\<close> and, after removing the paragraph,
  assigns \<open>tempDiv.innerHTML\<close> to \<open>data.content\<close>, so it returns the record as well; the body
  block parses \<open>data.content\<close> into the body element.
\<close>

definition renderTitle :: "crecord \<Rightarrow> jsval \<Rightarrow> panel \<Rightarrow> panel" where
  "renderTitle data fallbackName p = set_title (text_of (js_or (title data) fallbackName)) p"

definition renderMeta :: "env \<Rightarrow> crecord \<Rightarrow> panel \<Rightarrow> panel" where
  "renderMeta e data p = set_meta (metaHtml e data) p"

definition renderDescription :: "crecord \<Rightarrow> panel \<Rightarrow> crecord \<times> panel" where
  "renderDescription data p =
     (case contentDescription p of
        None \<Rightarrow> (data, p)
      | Some _ \<Rightarrow>
          if truthy (description data)
          then (data, set_description (text_of (description data)) ''block'' p)
          else
            (let tempDiv = merge_text (case content data of None \<Rightarrow> [] | Some ns \<Rightarrow> ns) in
             case query_p tempDiv of
               Some firstP \<Rightarrow>
                 (data\<lparr> content := Some (merge_text (remove_p tempDiv)) \<rparr>,
                  set_description (textContent firstP) ''block'' p)
             | None \<Rightarrow> (data, set_description [] ''none'' p)))"

definition renderImage :: "crecord \<Rightarrow> panel \<Rightarrow> panel" where
  \<open>renderImage data p =
     (if truthy (image data) \<and> image data \<noteq> JStr ''null'' \<and> image data \<noteq> JStr []
      then set_image (''<img src="'' @ template_of (image data) @ ''" alt="'' @
                      template_of (title data) @ ''" class="content-image">'') ''flex'' p
      else set_image [] ''none'' p)\<close>

definition renderBody :: "crecord \<Rightarrow> panel \<Rightarrow> panel" where
  "renderBody data p =
     set_body (merge_text (case content data of None \<Rightarrow> [] | Some ns \<Rightarrow> ns)) p"

definition renderFooter :: "env \<Rightarrow> crecord \<Rightarrow> panel \<Rightarrow> error + panel" where
  "renderFooter e data p =
     (case contentFooter p of
        None \<Rightarrow> Inr p
      | Some _ \<Rightarrow>
          (case resourcesHtml e data of
             Inl x \<Rightarrow> Inl x
           | Inr res \<Rightarrow> Inr (set_footer (referencesHtml data @ res) p)))"

text \<open>
  \<open>renderContent(data, fallbackName)\<close>: the exception raised, if any, the record and the
  elements as they are when it returns or raises. A \<open>data\<close> that is \<open>null\<close> raises at the
  first field read, which is inside the first block whose element exists.
\<close>

definition renderContent ::
  "env \<Rightarrow> crecord option \<Rightarrow> jsval \<Rightarrow> panel \<Rightarrow> error option \<times> crecord option \<times> panel" where
  "renderContent e dataopt fallbackName p =
     (case dataopt of
        None \<Rightarrow>
          (if contentTitle p \<noteq> None \<or> contentMeta p \<noteq> None \<or> contentDescription p \<noteq> None \<or>
              contentImageContainer p \<noteq> None \<or> contentBody p \<noteq> None \<or> contentFooter p \<noteq> None
           then (Some TypeError, None, p) else (None, None, p))
      | Some data \<Rightarrow>
          (let p1 = renderTitle data fallbackName p;
               p2 = renderMeta e data p1;
               (data3, p3) = renderDescription data p2;
               p4 = renderImage data3 p3;
               p5 = renderBody data3 p4
           in case renderFooter e data3 p5 of
                Inl x \<Rightarrow> (Some x, Some data3, p5)
              | Inr p6 \<Rightarrow> (None, Some data3, p6)))"

definition placeholder :: string where
  \<open>placeholder =
     nl @ spaces 8 @ ''<svg class="content-placeholder" viewBox="0 0 120 100" fill="none" xmlns="http://www.w3.org/2000/svg">'' @
     nl @ spaces 10 @ ''<rect x="10" y="10" width="100" height="80" rx="4" stroke="#888" stroke-width="2" fill="none"/>'' @
     nl @ spaces 10 @ ''<path d="M10 70 L40 45 L60 60 L85 35 L110 55 L110 90 L10 90 Z" fill="#bbb"/>'' @
     nl @ spaces 10 @ ''<circle cx="35" cy="35" r="10" fill="#bbb"/>'' @
     nl @ spaces 8 @ ''</svg>'' @
     nl @ spaces 6\<close>

definition renderError :: "jsval \<Rightarrow> panel \<Rightarrow> panel" where
  "renderError name p =
     (let p1 = set_title (text_of (js_or name (JStr ''Not Found''))) p;
          p2 = set_meta [] p1;
          p3 = set_description ''Content could not be loaded.'' ''block'' p2;
          p4 = set_image_html placeholder p3;
          p5 = set_body [] p4
      in set_footer [] p5)"

text \<open>\<open>show()\<close>; the name \<open>show\<close> is a keyword here.\<close>

definition show_panel :: "panel \<Rightarrow> panel" where
  "show_panel p =
     (let p1 = (case contentSection p of None \<Rightarrow> p | Some _ \<Rightarrow> p\<lparr> contentSection := Some True \<rparr>)
      in case treeSection p1 of None \<Rightarrow> p1 | Some _ \<Rightarrow> p1\<lparr> treeSection := Some True \<rparr>)"

definition hide :: "panel \<Rightarrow> panel" where
  "hide p =
     (let p1 = (case contentSection p of None \<Rightarrow> p | Some _ \<Rightarrow> p\<lparr> contentSection := Some False \<rparr>);
          p2 = (case treeSection p1 of None \<Rightarrow> p1 | Some _ \<Rightarrow> p1\<lparr> treeSection := Some False \<rparr>)
      in p2\<lparr> currentSlug := JNull \<rparr>)"

text \<open>
  \<open>isVisible()\<close> returns \<open>contentSection && contentSection.classList.contains('visible')\<close>:
  \<open>null\<close> (here \<open>None\<close>) without the element, a boolean otherwise.
\<close>

definition isVisible :: "panel \<Rightarrow> bool option" where
  "isVisible p = contentSection p"

text \<open>
  What \<open>await fetch(url)\<close> and \<open>await response.json()\<close> give: the fetch is rejected, or
  there is a response with its \<open>ok\<close> flag and a body that is no JSON, the JSON \<open>null\<close>, or
  a record.
\<close>

datatype body = BadJson | JsonNull | JsonRecord crecord

datatype fetched = FetchRejected | Response (ok: bool) (body: body)

text \<open>
  The \<open>try\<close> block of \<open>loadContent\<close>: the exception that leaves it, if any, and the panel at
  that moment.
\<close>

definition loadContent_try :: "env \<Rightarrow> jsval \<Rightarrow> jsval \<Rightarrow> fetched \<Rightarrow> panel \<Rightarrow> error option \<times> panel" where
  "loadContent_try e slug name res p =
     (case res of
        FetchRejected \<Rightarrow> (Some FetchError, p)
      | Response okay b \<Rightarrow>
          if \<not> okay then (Some NotFoundError, p)
          else
            (case b of
               BadJson \<Rightarrow> (Some SyntaxError, p)
             | _ \<Rightarrow>
                 (case renderContent e (case b of JsonRecord r \<Rightarrow> Some r | _ \<Rightarrow> None) name p of
                    (Some x, _, p1) \<Rightarrow> (Some x, p1)
                  | (None, _, p1) \<Rightarrow> (None, (show_panel p1)\<lparr> currentSlug := slug \<rparr>))))"

text \<open>
  \<open>loadContent(slug, name)\<close>, given what the fetch of the slug's URL gives: \<open>Inl\<close> is an
  exception that reaches the caller (a rejected promise), \<open>Inr\<close> the panel afterwards.
\<close>

definition loadContent :: "env \<Rightarrow> jsval \<Rightarrow> jsval \<Rightarrow> fetched \<Rightarrow> panel \<Rightarrow> error + panel" where
  "loadContent e slug name res p =
     (case loadContent_try e slug name res p of
        (None, p1) \<Rightarrow> Inr p1
      | (Some x, p1) \<Rightarrow> Inr (show_panel (renderError name p1)))"

text \<open>
  An environment for the examples. Its \<open>hostname\<close> is a table of the strings that the
  examples use, with what \<open>new URL(s).hostname\<close> gives for each; it is applied to no
  other string in what follows. \<open>http notes of 2020\<close> is no URL: the constructor raises.
  The examples have no dates.
\<close>

definition example_hostname :: "string \<Rightarrow> string option" where
  "example_hostname s =
     (if s = ''https://example.com/page'' then Some ''example.com''
      else if s = ''https://api.www.example.com/docs'' then Some ''api.www.example.com''
      else None)"

definition example_env :: env where
  "example_env = \<lparr> monthName = (\<lambda>s. []), fullYear = (\<lambda>s. []), hostname = example_hostname \<rparr>"

definition example_panel :: panel where
  "example_panel = \<lparr> contentSection = Some False, contentTitle = Some [], contentMeta = Some [],
     contentDescription = Some ([], []), contentImageContainer = Some ([], []),
     contentBody = Some [], contentFooter = Some [], treeSection = Some False,
     currentSlug = JNull \<rparr>"

definition example_record :: crecord where
  "example_record = \<lparr> title = JStr ''Bicycles'', date = JUndefined, collaborators = NoCollab,
     description = JUndefined, image = JUndefined,
     content = Some [Text nl, Elem ''p'' [] [Text ''Hello world.''], Text nl,
                     Elem ''p'' [] [Text ''More text.''], Text nl],
     references = None,
     resources = Some [''https://example.com/page'', ''Just a note''] \<rparr>"

section \<open>Notions that the statements use\<close>

text \<open>
  No node of the tree holds a visible and a hidden list of children at the same time.
\<close>

fun exclusive :: "hnode \<Rightarrow> bool" where
  "exclusive (HNode a n s c h) =
     ((c = None \<or> h = None) \<and>
      (case c of None \<Rightarrow> True | Some cs \<Rightarrow> list_all exclusive cs) \<and>
      (case h of None \<Rightarrow> True | Some hs \<Rightarrow> list_all exclusive hs))"

text \<open>A text node of a body, such as the white space before its first element.\<close>

fun is_text :: "dom \<Rightarrow> bool" where
  "is_text (Text s) = True"
| "is_text (Elem t a ks) = False"

text \<open>
  In the words of the specification, an item "begins with a URL scheme": it begins with a
  letter, then letters, digits, \<open>+\<close>, \<open>-\<close> or \<open>.\<close>, and a colon after them.
\<close>

definition scheme_char :: "char \<Rightarrow> bool" where
  "scheme_char c =
     (c \<in> set ''abcdefghijklmnopqrstuvwxyzABCDEFGHIJKLMNOPQRSTUVWXYZ0123456789+-.'')"

definition spec_begins_with_scheme :: "string \<Rightarrow> bool" where
  "spec_begins_with_scheme s =
     (let sch = takeWhile (\<lambda>c. c \<noteq> CHR '':'') s in
      sch \<noteq> [] \<and> length sch < length s \<and> list_all scheme_char sch \<and>
      hd sch \<in> set ''abcdefghijklmnopqrstuvwxyzABCDEFGHIJKLMNOPQRSTUVWXYZ'')"

text \<open>
  In the words of the specification, the bare domain: the hostname with a leading \<open>www.\<close>
  stripped. \<open>has_www\<close> tells whether \<open>www.\<close> occurs anywhere in a hostname.
\<close>

definition spec_bare_domain :: "string \<Rightarrow> string" where
  "spec_bare_domain h = (if prefix ''www.'' h then drop 4 h else h)"

fun has_www :: "string \<Rightarrow> bool" where
  "has_www [] = False"
| "has_www (c # cs) = (prefix ''www.'' (c # cs) \<or> has_www cs)"

text \<open>Two states of a page have the same elements.\<close>

definition same_elements :: "panel \<Rightarrow> panel \<Rightarrow> bool" where
  "same_elements p p' =
     ((contentSection p' = None) = (contentSection p = None) \<and>
      (contentTitle p' = None) = (contentTitle p = None) \<and>
      (contentMeta p' = None) = (contentMeta p = None) \<and>
      (contentDescription p' = None) = (contentDescription p = None) \<and>
      (contentImageContainer p' = None) = (contentImageContainer p = None) \<and>
      (contentBody p' = None) = (contentBody p = None) \<and>
      (contentFooter p' = None) = (contentFooter p = None) \<and>
      (treeSection p' = None) = (treeSection p = None))"

text \<open>
  The interactions after loading: a click on a node, a call of \<open>selectNode\<close> or of
  \<open>clearSelection\<close>, and the timers running.
\<close>

datatype event = Click "nat list" | Select "nat list" | Clear | Timeout

fun step :: "tree_state \<Rightarrow> event \<Rightarrow> tree_state" where
  "step st (Click p) = handleNodeClick st p"
| "step st (Select p) = selectNode st p"
| "step st Clear = clearSelection st"
| "step st Timeout = runTimers st"

text \<open>A position is visible when it is reached from the root through \<open>children\<close> alone.\<close>

fun reachable :: "hnode \<Rightarrow> nat list \<Rightarrow> bool" where
  "reachable d [] = True"
| "reachable d (i # q) =
     (case children d of None \<Rightarrow> False | Some cs \<Rightarrow> i < length cs \<and> reachable (cs ! i) q)"

text \<open>
  What expanding and collapsing never change: the identifier, the name and the slug of
  each node, and which nodes are below it.
\<close>

datatype skel = Skel "nat option" jsval jsval "skel list"

fun skel_of :: "hnode \<Rightarrow> skel" where
  "skel_of (HNode a n s c h) =
     (case c of
        Some cs \<Rightarrow> Skel a n s (map skel_of cs)
      | None \<Rightarrow> (case h of Some hs \<Rightarrow> Skel a n s (map skel_of hs) | None \<Rightarrow> Skel a n s []))"

fun skel_at :: "skel \<Rightarrow> nat list \<Rightarrow> skel option" where
  "skel_at k [] = Some k"
| "skel_at (Skel a n s ks) (i # p) = (if i < length ks then skel_at (ks ! i) p else None)"

fun skel_id :: "skel \<Rightarrow> nat option" where
  "skel_id (Skel a n s ks) = a"

text \<open>No two nodes of the tree have the same identifier.\<close>

definition ids_inj :: "skel \<Rightarrow> bool" where
  "ids_inj k =
     (\<forall>q q' x x'. skel_at k q = Some x \<and> skel_at k q' = Some x' \<and> skel_id x = skel_id x'
        \<longrightarrow> q = q')"

text \<open>A tree as \<open>d3.hierarchy\<close> builds it: no node has hidden children.\<close>

fun fresh :: "hnode \<Rightarrow> bool" where
  "fresh (HNode a n s c h) =
     (h = None \<and> (case c of None \<Rightarrow> True | Some cs \<Rightarrow> list_all fresh cs))"

text \<open>A subtree in which nothing is expanded.\<close>

fun collapsed_all :: "hnode \<Rightarrow> bool" where
  "collapsed_all (HNode a n s c h) =
     (c = None \<and> (case h of None \<Rightarrow> True | Some hs \<Rightarrow> list_all collapsed_all hs))"

text \<open>
  In the words of the specification for the \<open>path\<close> policy: each successive name is
  matched against the children of the current node, starting at the root. The result is
  the position of the last node matched and whether the full sequence resolved.
\<close>

fun spec_resolve :: "hnode \<Rightarrow> string list \<Rightarrow> nat list \<times> bool" where
  "spec_resolve d [] = ([], True)"
| "spec_resolve d (t # rest) =
     (case kids d of
        None \<Rightarrow> ([], False)
      | Some cs \<Rightarrow>
          (case find_child t cs of
             None \<Rightarrow> ([], False)
           | Some i \<Rightarrow> (case spec_resolve (cs ! i) rest of (q, b) \<Rightarrow> (i # q, b))))"

text \<open>Tree data in which every node is an object.\<close>

fun no_null :: "tdata \<Rightarrow> bool" where
  "no_null TNull = False"
| "no_null (TObj n s c) = (case c of None \<Rightarrow> True | Some cs \<Rightarrow> list_all no_null cs)"

text \<open>
  The tree of the examples, \<open>Root \<rightarrow> Interests \<rightarrow> {Minerals, Bicycles}\<close>, with the slugs
  of its four nodes left open.
\<close>

definition example_tree :: "jsval \<Rightarrow> jsval \<Rightarrow> jsval \<Rightarrow> jsval \<Rightarrow> tdata" where
  "example_tree s0 s1 s2 s3 =
     TObj (JStr ''Root'') s0 (Some [
       TObj (JStr ''Interests'') s1 (Some [
         TObj (JStr ''Minerals'') s2 None,
         TObj (JStr ''Bicycles'') s3 None])])"

text \<open>
  The example tree, every node but \<open>Interests\<close> with content, loaded under the
  \<open>collapsed\<close> policy with a callback set.
\<close>

definition example_collapsed :: tree_state where
  "example_collapsed =
     projr (loadData \<lparr> defaultLanding = LCollapsed, defaultPath = [] \<rparr> True
       (example_tree (JStr ''about'') JNull (JStr ''minerals'') (JStr ''bicycles'')))"

text \<open>
  A node whose children, visible or hidden, are subtrees in which nothing is expanded,
  and which does not hold both lists.
\<close>

definition semi_collapsed :: "hnode \<Rightarrow> bool" where
  "semi_collapsed d =
     ((children d = None \<or> hidden d = None) \<and>
      (case kids d of None \<Rightarrow> True | Some cs \<Rightarrow> list_all collapsed_all cs))"

section \<open>The panel: which element each assignment changes\<close>

lemma set_title_fields [simp]:
  "contentSection (set_title t p) = contentSection p"
  "contentTitle (set_title t p) = (case contentTitle p of None \<Rightarrow> None | Some x \<Rightarrow> Some t)"
  "contentMeta (set_title t p) = contentMeta p"
  "contentDescription (set_title t p) = contentDescription p"
  "contentImageContainer (set_title t p) = contentImageContainer p"
  "contentBody (set_title t p) = contentBody p"
  "contentFooter (set_title t p) = contentFooter p"
  "treeSection (set_title t p) = treeSection p"
  "currentSlug (set_title t p) = currentSlug p"
  by (simp_all add: set_title_def split: option.splits prod.splits)

lemma set_meta_fields [simp]:
  "contentSection (set_meta h p) = contentSection p"
  "contentTitle (set_meta h p) = contentTitle p"
  "contentMeta (set_meta h p) = (case contentMeta p of None \<Rightarrow> None | Some x \<Rightarrow> Some h)"
  "contentDescription (set_meta h p) = contentDescription p"
  "contentImageContainer (set_meta h p) = contentImageContainer p"
  "contentBody (set_meta h p) = contentBody p"
  "contentFooter (set_meta h p) = contentFooter p"
  "treeSection (set_meta h p) = treeSection p"
  "currentSlug (set_meta h p) = currentSlug p"
  by (simp_all add: set_meta_def split: option.splits prod.splits)

lemma set_description_fields [simp]:
  "contentSection (set_description t disp p) = contentSection p"
  "contentTitle (set_description t disp p) = contentTitle p"
  "contentMeta (set_description t disp p) = contentMeta p"
  "contentDescription (set_description t disp p) = (case contentDescription p of None \<Rightarrow> None | Some x \<Rightarrow> Some (t, disp))"
  "contentImageContainer (set_description t disp p) = contentImageContainer p"
  "contentBody (set_description t disp p) = contentBody p"
  "contentFooter (set_description t disp p) = contentFooter p"
  "treeSection (set_description t disp p) = treeSection p"
  "currentSlug (set_description t disp p) = currentSlug p"
  by (simp_all add: set_description_def split: option.splits prod.splits)

lemma set_image_fields [simp]:
  "contentSection (set_image h disp p) = contentSection p"
  "contentTitle (set_image h disp p) = contentTitle p"
  "contentMeta (set_image h disp p) = contentMeta p"
  "contentDescription (set_image h disp p) = contentDescription p"
  "contentImageContainer (set_image h disp p) = (case contentImageContainer p of None \<Rightarrow> None | Some x \<Rightarrow> Some (h, disp))"
  "contentBody (set_image h disp p) = contentBody p"
  "contentFooter (set_image h disp p) = contentFooter p"
  "treeSection (set_image h disp p) = treeSection p"
  "currentSlug (set_image h disp p) = currentSlug p"
  by (simp_all add: set_image_def split: option.splits prod.splits)

lemma set_image_html_fields [simp]:
  "contentSection (set_image_html h p) = contentSection p"
  "contentTitle (set_image_html h p) = contentTitle p"
  "contentMeta (set_image_html h p) = contentMeta p"
  "contentDescription (set_image_html h p) = contentDescription p"
  "contentImageContainer (set_image_html h p) = (case contentImageContainer p of None \<Rightarrow> None | Some x \<Rightarrow> Some (h, snd x))"
  "contentBody (set_image_html h p) = contentBody p"
  "contentFooter (set_image_html h p) = contentFooter p"
  "treeSection (set_image_html h p) = treeSection p"
  "currentSlug (set_image_html h p) = currentSlug p"
  by (simp_all add: set_image_html_def split: option.splits prod.splits)

lemma set_body_fields [simp]:
  "contentSection (set_body ns p) = contentSection p"
  "contentTitle (set_body ns p) = contentTitle p"
  "contentMeta (set_body ns p) = contentMeta p"
  "contentDescription (set_body ns p) = contentDescription p"
  "contentImageContainer (set_body ns p) = contentImageContainer p"
  "contentBody (set_body ns p) = (case contentBody p of None \<Rightarrow> None | Some x \<Rightarrow> Some ns)"
  "contentFooter (set_body ns p) = contentFooter p"
  "treeSection (set_body ns p) = treeSection p"
  "currentSlug (set_body ns p) = currentSlug p"
  by (simp_all add: set_body_def split: option.splits prod.splits)

lemma set_footer_fields [simp]:
  "contentSection (set_footer h p) = contentSection p"
  "contentTitle (set_footer h p) = contentTitle p"
  "contentMeta (set_footer h p) = contentMeta p"
  "contentDescription (set_footer h p) = contentDescription p"
  "contentImageContainer (set_footer h p) = contentImageContainer p"
  "contentBody (set_footer h p) = contentBody p"
  "contentFooter (set_footer h p) = (case contentFooter p of None \<Rightarrow> None | Some x \<Rightarrow> Some h)"
  "treeSection (set_footer h p) = treeSection p"
  "currentSlug (set_footer h p) = currentSlug p"
  by (simp_all add: set_footer_def split: option.splits prod.splits)

section \<open>Parsing merges text nodes\<close>

lemma merge_text_no_empty: "merge_text ns \<noteq> Text [] # r"
proof (induction ns arbitrary: r rule: merge_text.induct)
  case 1
  then show ?case by simp
next
  case (2 t a ks ns)
  then show ?case by simp
next
  case (3 s ns)
  then show ?case by (auto split: list.splits dom.splits)
qed

lemma textContent_merge_text:
  "concat (map textContent (merge_text ns)) = concat (map textContent ns)"
proof (induction ns rule: merge_text.induct)
  case 1
  then show ?case by simp
next
  case (2 t a ks ns)
  then show ?case by simp
next
  case (3 s ns)
  then show ?case by (auto split: list.splits dom.splits)
qed

lemma merge_text_Text_Cons:
  "merge_text (Text s # ns) =
     (case merge_text ns of
        Text s' # ms \<Rightarrow> Text (s @ s') # ms
      | ms \<Rightarrow> if s = [] then ms else Text s # ms)"
  by simp

lemma merge_text_idem: "merge_text (merge_text ns) = merge_text ns"
proof (induction ns rule: merge_text.induct)
  case 1
  then show ?case by simp
next
  case (2 t a ks ns)
  then show ?case by simp
next
  case (3 s ns)
  show ?case
  proof (cases "merge_text ns")
    case Nil
    then show ?thesis by simp
  next
    case (Cons m ms)
    show ?thesis
    proof (cases m)
      case (Elem t a ks)
      then show ?thesis using Cons 3 by (cases "s = []") simp_all
    next
      case (Text s')
      have ne: "s' \<noteq> []" using Cons Text merge_text_no_empty by blast
      have i: "merge_text (Text s' # ms) = Text s' # ms" using 3 Cons Text by simp
      have nt: "\<And>u r. merge_text ms \<noteq> Text u # r"
      proof
        fix u r assume "merge_text ms = Text u # r"
        then have "Text (s' @ u) # r = Text s' # ms" using i by simp
        then have "u = []" by simp
        then show False using \<open>merge_text ms = Text u # r\<close> merge_text_no_empty by blast
      qed
      have ms: "merge_text ms = ms"
        using i nt ne by (auto split: list.splits dom.splits)
      have "merge_text (Text (s @ s') # ms) = Text (s @ s') # ms"
        using ms nt ne by (auto split: list.splits dom.splits)
      then show ?thesis using Cons Text by simp
    qed
  qed
qed

lemma merge_text_append_Elem:
  "merge_text (xs @ Elem t a ks # ys) = merge_text xs @ Elem t a (merge_text ks) # merge_text ys"
proof (induction xs rule: merge_text.induct)
  case 1
  then show ?case by simp
next
  case (2 t' a' ks' ns)
  then show ?case by simp
next
  case (3 s ns)
  then show ?case by (cases "merge_text ns") (auto split: dom.splits)
qed

lemma merge_text_append_right: "merge_text (xs @ merge_text ys) = merge_text (xs @ ys)"
proof (induction xs rule: merge_text.induct)
  case 1
  then show ?case by (simp add: merge_text_idem)
next
  case (2 t a ks ns)
  then show ?case by simp
next
  case (3 s ns)
  then show ?case by simp
qed

lemma merge_text_empty_text: "merge_text (Text [] # ns) = merge_text ns"
  by (auto split: list.splits dom.splits)

lemma merge_text_append_left: "merge_text (merge_text xs @ ys) = merge_text (xs @ ys)"
proof (induction xs rule: merge_text.induct)
  case 1
  then show ?case by simp
next
  case (2 t a ks ns)
  then show ?case by (simp add: merge_text_idem)
next
  case (3 s ns)
  have e: ?case if "s = []"
    using that 3 merge_text_empty_text [of ns] merge_text_empty_text [of "ns @ ys"]
    by (simp del: merge_text.simps)
  show ?case
  proof (cases "merge_text ns")
    case Nil
    then show ?thesis using 3 e by (cases "s = []") simp_all
  next
    case (Cons m ms)
    show ?thesis
    proof (cases m)
      case (Elem t a ks)
      then show ?thesis using Cons 3 e by (cases "s = []") simp_all
    next
      case (Text s')
      have ne: "s' \<noteq> []" using Cons Text merge_text_no_empty by blast
      have ih: "merge_text (ns @ ys) = merge_text (Text s' # ms @ ys)" using 3 Cons Text by simp
      show ?thesis using Cons Text ih ne
        by (cases "merge_text (ms @ ys)") (auto split: dom.splits)
    qed
  qed
qed

lemma is_text_merge_text: "list_all is_text pre \<Longrightarrow> list_all is_text (merge_text pre)"
proof (induction pre rule: merge_text.induct)
  case 1
  then show ?case by simp
next
  case (2 t a ks ns)
  then show ?case by simp
next
  case (3 s ns)
  then show ?case by (cases "merge_text ns") (auto split: dom.splits)
qed

lemma query_p_after_text:
  "list_all is_text pre \<Longrightarrow> query_p (pre @ Elem ''p'' a ks # rest) = Some (Elem ''p'' a ks)"
proof (induction pre)
  case Nil
  then show ?case by simp
next
  case (Cons n pre)
  then show ?case by (cases n) simp_all
qed

lemma remove_p_after_text:
  "list_all is_text pre \<Longrightarrow> remove_p (pre @ Elem ''p'' a ks # rest) = pre @ rest"
proof (induction pre)
  case Nil
  then show ?case by simp
next
  case (Cons n pre)
  then show ?case by (cases n) simp_all
qed

lemma renderFooter_result:
  "contentDescription (snd (snd (case renderFooter e d p of Inl x \<Rightarrow> (Some x, Some d, p) | Inr p6 \<Rightarrow> (None, Some d, p6)))) = contentDescription p"
  "contentBody (snd (snd (case renderFooter e d p of Inl x \<Rightarrow> (Some x, Some d, p) | Inr p6 \<Rightarrow> (None, Some d, p6)))) = contentBody p"
  by (auto simp: renderFooter_def split: sum.splits option.splits)

section \<open>What a failed load leaves\<close>

lemma same_elements_refl [simp]: "same_elements p p"
  by (simp add: same_elements_def)

lemma same_elements_trans: "same_elements p q \<Longrightarrow> same_elements q r \<Longrightarrow> same_elements p r"
  by (simp add: same_elements_def)

lemma same_elements_setters [simp]:
  "same_elements p (set_title t p)"
  "same_elements p (set_meta h p)"
  "same_elements p (set_description t disp p)"
  "same_elements p (set_image h disp p)"
  "same_elements p (set_image_html h p)"
  "same_elements p (set_body ns p)"
  "same_elements p (set_footer h p)"
  by (simp_all add: same_elements_def split: option.splits)

lemma renderDescription_same:
  "same_elements p (snd (renderDescription data p)) \<and>
   currentSlug (snd (renderDescription data p)) = currentSlug p"
  by (simp add: renderDescription_def Let_def split: option.splits)

lemma renderFooter_same:
  "renderFooter e data p = Inr p' \<Longrightarrow> same_elements p p' \<and> currentSlug p' = currentSlug p"
  by (auto simp: renderFooter_def split: option.splits sum.splits)

lemma renderContent_same:
  assumes "renderContent e d name p = (x, d', p')"
  shows "same_elements p p' \<and> currentSlug p' = currentSlug p"
proof (cases d)
  case None
  then show ?thesis using assms by (auto simp: renderContent_def split: if_splits)
next
  case (Some data)
  let ?p2 = "renderMeta e data (renderTitle data name p)"
  obtain data3 p3 where rd: "renderDescription data ?p2 = (data3, p3)"
    by (cases "renderDescription data ?p2")
  have s2: "same_elements p ?p2 \<and> currentSlug ?p2 = currentSlug p"
    using same_elements_trans [of p "renderTitle data name p" ?p2]
    by (simp add: renderMeta_def renderTitle_def)
  have s3: "same_elements p p3 \<and> currentSlug p3 = currentSlug p"
    using s2 renderDescription_same [of ?p2 data] rd by (auto intro: same_elements_trans)
  let ?p5 = "renderBody data3 (renderImage data3 p3)"
  have "same_elements p3 (renderImage data3 p3) \<and> currentSlug (renderImage data3 p3) = currentSlug p3"
    by (simp add: renderImage_def)
  moreover have "same_elements (renderImage data3 p3) ?p5 \<and>
                 currentSlug ?p5 = currentSlug (renderImage data3 p3)"
    by (simp add: renderBody_def)
  ultimately have s5: "same_elements p ?p5 \<and> currentSlug ?p5 = currentSlug p"
    using s3 by (auto intro: same_elements_trans)
  show ?thesis
  proof (cases "renderFooter e data3 ?p5")
    case (Inl y)
    then show ?thesis using assms Some rd s5 by (simp add: renderContent_def Let_def)
  next
    case (Inr p6)
    then show ?thesis using assms Some rd s5 renderFooter_same [OF Inr]
      by (auto simp: renderContent_def Let_def intro: same_elements_trans)
  qed
qed

lemma loadContent_try_same:
  assumes "loadContent_try e slug name res p = (Some x, p1)"
  shows "same_elements p p1 \<and> currentSlug p1 = currentSlug p"
proof (cases res)
  case FetchRejected
  then show ?thesis using assms by (simp add: loadContent_try_def)
next
  case (Response okay b)
  show ?thesis
  proof (cases "okay \<and> b \<noteq> BadJson")
    case False
    then show ?thesis using assms Response
      by (auto simp: loadContent_try_def split: body.splits if_splits)
  next
    case True
    obtain y d' p' where r:
      "renderContent e (case b of JsonRecord r \<Rightarrow> Some r | _ \<Rightarrow> None) name p = (y, d', p')"
      by (cases "renderContent e (case b of JsonRecord r \<Rightarrow> Some r | _ \<Rightarrow> None) name p") auto
    have "p1 = p'" using assms Response True r
      by (cases b; cases y) (auto simp: loadContent_try_def)
    then show ?thesis using renderContent_same [OF r] by simp
  qed
qed

lemma loadContent_try_failures:
  "fst (loadContent_try e slug name FetchRejected p) = Some FetchError"
  "fst (loadContent_try e slug name (Response False b) p) = Some NotFoundError"
  "fst (loadContent_try e slug name (Response True BadJson) p) = Some SyntaxError"
  by (simp_all add: loadContent_try_def)

lemma show_panel_fields [simp]:
  "contentSection (show_panel p) = (case contentSection p of None \<Rightarrow> None | Some v \<Rightarrow> Some True)"
  "treeSection (show_panel p) = (case treeSection p of None \<Rightarrow> None | Some v \<Rightarrow> Some True)"
  "contentTitle (show_panel p) = contentTitle p"
  "contentMeta (show_panel p) = contentMeta p"
  "contentDescription (show_panel p) = contentDescription p"
  "contentImageContainer (show_panel p) = contentImageContainer p"
  "contentBody (show_panel p) = contentBody p"
  "contentFooter (show_panel p) = contentFooter p"
  "currentSlug (show_panel p) = currentSlug p"
  by (simp_all add: show_panel_def Let_def split: option.splits)

lemma renderError_fields:
  "contentSection (renderError name p) = contentSection p"
  "treeSection (renderError name p) = treeSection p"
  "currentSlug (renderError name p) = currentSlug p"
  "contentTitle (renderError name p) =
     (case contentTitle p of None \<Rightarrow> None
      | Some t \<Rightarrow> Some (if truthy name then text_of name else ''Not Found''))"
  "contentMeta (renderError name p) = (case contentMeta p of None \<Rightarrow> None | Some t \<Rightarrow> Some [])"
  "contentDescription (renderError name p) =
     (case contentDescription p of None \<Rightarrow> None
      | Some t \<Rightarrow> Some (''Content could not be loaded.'', ''block''))"
  "contentImageContainer (renderError name p) =
     (case contentImageContainer p of None \<Rightarrow> None | Some t \<Rightarrow> Some (placeholder, snd t))"
  "contentBody (renderError name p) = (case contentBody p of None \<Rightarrow> None | Some t \<Rightarrow> Some [])"
  "contentFooter (renderError name p) = (case contentFooter p of None \<Rightarrow> None | Some t \<Rightarrow> Some [])"
  by (simp_all add: renderError_def Let_def js_or_def split: option.splits)

section \<open>The items of the resources list\<close>

lemma replace_www_leading: "prefix ''www.'' h \<Longrightarrow> replace_www h = drop 4 h"
  by (cases h) auto

lemma replace_www_none: "\<not> has_www h \<Longrightarrow> replace_www h = h"
  by (induction h) auto

lemma replace_www_bare:
  "prefix ''www.'' h \<or> \<not> has_www h \<Longrightarrow> replace_www h = spec_bare_domain h"
  by (cases h) (auto simp: spec_bare_domain_def replace_www_none)

lemma resourceItems_map:
  "list_all (\<lambda>r. prefix ''http'' r \<longrightarrow> hostname e r \<noteq> None) rs \<Longrightarrow>
   resourceItems e rs = Inr (map (\<lambda>r. projr (resourceItem e r)) rs)"
  by (induction rs) (auto simp: resourceItem_def split: sum.splits)

lemma renderDescription_footer:
  "contentFooter (snd (renderDescription data p)) = contentFooter p"
  "resources (fst (renderDescription data p)) = resources data"
  "references (fst (renderDescription data p)) = references data"
  by (auto simp: renderDescription_def Let_def split: option.splits)

section \<open>Nodes at positions\<close>

lemma kids_toggle [simp]: "kids (toggle d) = kids d"
  by (cases d) (auto simp: kids_def split: option.splits)

lemma toggle_fields [simp]: "nid (toggle d) = nid d" "dname (toggle d) = dname d" "dslug (toggle d) = dslug d"
  by (cases d; simp split: option.splits)+

lemma toggle_flips: "\<not> isLeaf d \<Longrightarrow> (children (toggle d) = None) = (children d \<noteq> None)"
  by (cases d) (auto simp: isLeaf_def split: option.splits)

lemma node_at_update_at:
  "node_at r p = Some d \<Longrightarrow> node_at (update_at f p r) (p @ s) = node_at (f d) s"
proof (induction p arbitrary: r)
  case Nil
  then show ?case by simp
next
  case (Cons i p)
  then show ?case
    by (cases r) (auto simp: kids_def split: option.splits if_splits)
qed

lemma node_at_append:
  "node_at r (p @ s) = (case node_at r p of None \<Rightarrow> None | Some d \<Rightarrow> node_at d s)"
  by (induction p arbitrary: r) (auto split: option.splits)

lemma update_at_id: "node_at r p = Some d \<Longrightarrow> f d = d \<Longrightarrow> update_at f p r = r"
proof (induction p arbitrary: r)
  case Nil
  then show ?case by simp
next
  case (Cons i p)
  then show ?case
    by (cases r) (auto simp: kids_def split: option.splits if_splits)
qed

lemma selectNode_root [simp]: "root (selectNode st p) = root st"
  by (simp add: selectNode_def Let_def split: option.splits)

lemma click_root:
  assumes "node_at (root st) p = Some d"
  shows "root (handleNodeClick st p) = update_at toggle p (root st)"
proof (cases "isLeaf d")
  case True
  then have "toggle d = d" by (cases d) (simp add: isLeaf_def)
  then have "update_at toggle p (root st) = root st" using assms by (simp add: update_at_id)
  then show ?thesis using assms True by (auto simp: handleNodeClick_def isLeaf_def Let_def)
next
  case False
  then show ?thesis using assms by (auto simp: handleNodeClick_def isLeaf_def Let_def)
qed

lemma example_collapsed_eq:
  "example_collapsed =
     \<lparr> root = HNode (Some 0) (JStr ''Root'') (JStr ''about'') None
         (Some [HNode (Some 1) (JStr ''Interests'') JNull None
            (Some [HNode (Some 2) (JStr ''Minerals'') (JStr ''minerals'') None None,
                   HNode (Some 3) (JStr ''Bicycles'') (JStr ''bicycles'') None None])]),
       selectedNode = None, onNodeSelect = True, isTreeExpanded = False, calls = [],
       timers = [] \<rparr>"
  by (simp add: example_collapsed_def example_tree_def loadData_def assign_ids_def
      descendants_def applyDefaultLandingState_def applyDefaultSelection_def upt_rec)

lemma exclusive_collapse: "exclusive d \<Longrightarrow> exclusive (collapse d)"
  by (induction d rule: collapse.induct) (auto simp: list_all_iff split: option.splits)

lemma exclusive_expandAll: "exclusive d \<Longrightarrow> exclusive (expandAll d)"
  by (induction d rule: expandAll.induct) (auto simp: list_all_iff split: option.splits)

lemma exclusive_toggle: "exclusive d \<Longrightarrow> exclusive (toggle d)"
  by (cases d) (auto split: option.splits)

lemma exclusive_unhide: "exclusive d \<Longrightarrow> exclusive (unhide d)"
  by (cases d) (auto split: option.splits)

lemma exclusive_children_nth:
  "exclusive d \<Longrightarrow> children d = Some cs \<Longrightarrow> i < length cs \<Longrightarrow> exclusive (cs ! i)"
  by (cases d) (auto simp: list_all_length)

lemma exclusive_children_upd:
  "exclusive d \<Longrightarrow> children d = Some cs \<Longrightarrow> exclusive x \<Longrightarrow>
   exclusive (HNode (nid d) (dname d) (dslug d) (Some (cs[i := x])) (hidden d))"
  by (cases d) (auto simp: list_all_iff dest: set_update_subset_insert [THEN subsetD])

lemma find_child_less: "find_child t cs = Some i \<Longrightarrow> i < length cs"
  by (induction cs arbitrary: i) (auto split: if_splits)

lemma exclusive_expandPath: "exclusive d \<Longrightarrow> exclusive (expandPath d path)"
proof (induction path arbitrary: d)
  case Nil
  then show ?case by simp
next
  case (Cons t rest)
  have u: "exclusive (unhide d)" using Cons.prems by (rule exclusive_unhide)
  show ?case
  proof (cases "children (unhide d)")
    case None
    then show ?thesis using u by simp
  next
    case (Some cs)
    show ?thesis
    proof (cases "find_child t cs")
      case None
      then show ?thesis using u Some by simp
    next
      case (Some i)
      have "i < length cs" using Some by (rule find_child_less)
      then have "exclusive (cs ! i)" using u \<open>children (unhide d) = Some cs\<close>
        by (simp add: exclusive_children_nth)
      then have "exclusive (expandPath (cs ! i) rest)" by (rule Cons.IH)
      then have "exclusive (HNode (nid (unhide d)) (dname (unhide d)) (dslug (unhide d))
          (Some (cs[i := expandPath (cs ! i) rest])) (hidden (unhide d)))"
        using u \<open>children (unhide d) = Some cs\<close> by (rule exclusive_children_upd [rotated 2])
      then show ?thesis using \<open>children (unhide d) = Some cs\<close> Some
        by (simp add: Let_def del: exclusive.simps)
    qed
  qed
qed

lemma toggle_leaf_id: "isLeaf d \<Longrightarrow> toggle d = d"
  by (cases d) (simp add: isLeaf_def)

section \<open>The visible positions\<close>

lemma level_iff: "q \<in> set (level k d) \<longleftrightarrow> length q = k \<and> reachable d q"
proof (induction k arbitrary: d q)
  case 0
  then show ?case by (cases q) auto
next
  case (Suc k)
  show ?case
  proof (cases "children d")
    case None
    then show ?thesis by (cases q) auto
  next
    case (Some cs)
    then show ?thesis using Suc by (cases q) (auto simp: image_iff)
  qed
qed

lemma fold_max_ge: "(x::nat) \<in> set xs \<Longrightarrow> x \<le> fold max xs a"
  by (simp add: Max.set_eq_fold [symmetric])

lemma reachable_height: "reachable d q \<Longrightarrow> length q \<le> height d"
proof (induction q arbitrary: d)
  case Nil
  then show ?case by simp
next
  case (Cons i q)
  obtain a n s c h where d: "d = HNode a n s c h" by (cases d)
  from Cons.prems d obtain cs where c: "c = Some cs" and i: "i < length cs"
    and r: "reachable (cs ! i) q"
    by (auto split: option.splits)
  have "length q \<le> height (cs ! i)" using r by (rule Cons.IH)
  moreover have "height (cs ! i) \<le> fold max (map height cs) 0"
    using i by (intro fold_max_ge) simp
  ultimately show ?case using d c by simp
qed

lemma set_descendants: "set (descendants d) = {q. reachable d q}"
proof -
  have "q \<in> set (descendants d) \<longleftrightarrow> reachable d q" for q
  proof
    assume "q \<in> set (descendants d)"
    then show "reachable d q" by (auto simp: descendants_def level_iff)
  next
    assume r: "reachable d q"
    then have "length q < Suc (height d)" using reachable_height by (simp add: less_Suc_eq_le)
    then show "q \<in> set (descendants d)"
      using r unfolding descendants_def by (auto simp: level_iff simp del: upt_Suc)
  qed
  then show ?thesis by auto
qed

lemma reachable_update_toggle:
  "node_at r p = Some d \<Longrightarrow> children d \<noteq> None \<Longrightarrow>
   reachable (update_at toggle p r) q \<longleftrightarrow> reachable r q \<and> \<not> strict_prefix p q"
proof (induction p arbitrary: r q)
  case Nil
  then show ?case by (cases r; cases q) (auto split: option.splits)
next
  case (Cons i p)
  obtain a n s c h where r: "r = HNode a n s c h" by (cases r)
  show ?case
  proof (cases c)
    case None
    then show ?thesis using r Cons.prems
      by (cases q) (auto simp: kids_def split: option.splits if_splits)
  next
    case (Some cs)
    then have i: "i < length cs" and n: "node_at (cs ! i) p = Some d"
      using r Cons.prems by (auto simp: kids_def split: if_splits)
    show ?thesis
    proof (cases q)
      case Nil
      then show ?thesis by simp
    next
      case (Cons j q')
      show ?thesis
      proof (cases "j = i")
        case True
        then show ?thesis using r Some i Cons Cons.IH [OF n Cons.prems(2), of q']
          by simp
      next
        case False
        then show ?thesis using r Some i Cons by simp
      qed
    qed
  qed
qed

lemma level_children_cong: "children d = children d' \<Longrightarrow> level k d = level k d'"
  by (cases k) simp_all

lemma height_children_cong: "children d = children d' \<Longrightarrow> height d = height d'"
  by (cases d; cases d') simp

lemma level_update_at:
  "(\<And>x. children (f x) = children x) \<Longrightarrow> level k (update_at f p r) = level k r"
proof (induction p arbitrary: r k)
  case Nil
  then show ?case by (simp add: level_children_cong [of "f r" r])
next
  case (Cons i p)
  show ?case
  proof (cases k)
    case 0
    then show ?thesis by simp
  next
    case (Suc k')
    obtain a n s c h where r: "r = HNode a n s c h" by (cases r)
    show ?thesis
    proof (cases c)
      case None
      then show ?thesis using r Suc by (simp split: option.splits)
    next
      case (Some cs)
      show ?thesis
      proof (cases "i < length cs")
        case False
        then show ?thesis using r Some by simp
      next
        case True
        have "level k' ((cs[i := update_at f p (cs ! i)]) ! j) = level k' (cs ! j)"
          if "j < length cs" for j
          using that Cons.IH [OF Cons.prems, of k' "cs ! i"] by (cases "j = i") simp_all
        then have key: "concat (map (\<lambda>j. map ((#) j) (level k' ((cs[i := update_at f p (cs ! i)]) ! j))) [0..<length cs])
             = concat (map (\<lambda>j. map ((#) j) (level k' (cs ! j))) [0..<length cs])"
          by (intro arg_cong [where f = concat] map_cong) simp_all
        show ?thesis using r Some True Suc by (simp add: key)
      qed
    qed
  qed
qed

lemma height_update_at:
  "(\<And>x. children (f x) = children x) \<Longrightarrow> height (update_at f p r) = height r"
proof (induction p arbitrary: r)
  case Nil
  then show ?case by (simp add: height_children_cong [of "f r" r])
next
  case (Cons i p)
  obtain a n s c h where r: "r = HNode a n s c h" by (cases r)
  show ?case
  proof (cases c)
    case None
    then show ?thesis using r by (simp split: option.splits)
  next
    case (Some cs)
    have "height (update_at f p (cs ! i)) = height (cs ! i)"
      using Cons.IH [OF Cons.prems] .
    then have "map height (cs[i := update_at f p (cs ! i)]) = map height cs"
      by (cases "i < length cs") (simp_all add: map_update list_update_same_conv list_update_beyond)
    then show ?thesis using r Some by simp
  qed
qed

lemma descendants_update_at:
  "(\<And>x. children (f x) = children x) \<Longrightarrow> descendants (update_at f p r) = descendants r"
  by (simp add: descendants_def level_update_at height_update_at)

lemma update_at_twice:
  "update_at f p (update_at g p r) = update_at (\<lambda>x. f (g x)) p r"
proof (induction p arbitrary: r)
  case Nil
  then show ?case by simp
next
  case (Cons i p)
  obtain a n s c h where r: "r = HNode a n s c h" by (cases r)
  show ?case
  proof (cases c)
    case (Some cs)
    then show ?thesis using r Cons.IH by simp
  next
    case None
    then show ?thesis using r Cons.IH by (cases h) simp_all
  qed
qed

lemma children_toggle_toggle: "children (toggle (toggle x)) = children x"
  by (cases x) (simp split: option.splits)

lemma node_at_toggle_below: "s \<noteq> [] \<Longrightarrow> node_at (toggle d) s = node_at d s"
  by (cases s) simp_all

section \<open>What expanding and collapsing keep\<close>

lemma skel_id_of [simp]: "skel_id (skel_of d) = nid d"
  by (cases d) (simp split: option.splits)

lemma skel_at_of: "skel_at (skel_of d) q = map_option skel_of (node_at d q)"
proof (induction q arbitrary: d)
  case Nil
  then show ?case by simp
next
  case (Cons i q)
  obtain a n s c h where d: "d = HNode a n s c h" by (cases d)
  show ?case using d Cons.IH by (cases c; cases h) (simp_all add: kids_def)
qed

lemma ids_inj_node_at:
  assumes "ids_inj (skel_of r)" and "node_at r q = Some n" and "node_at r q' = Some n'"
    and "nid n = nid n'"
  shows "q = q'"
proof -
  have "skel_at (skel_of r) q = Some (skel_of n)" "skel_at (skel_of r) q' = Some (skel_of n')"
    using assms(2,3) by (simp_all add: skel_at_of)
  moreover have "skel_id (skel_of n) = skel_id (skel_of n')" using assms(4) by simp
  ultimately show ?thesis using assms(1) unfolding ids_inj_def by blast
qed

lemma skel_of_toggle [simp]: "skel_of (toggle d) = skel_of d"
  by (cases d) (simp split: option.splits)

lemma skel_of_update_at:
  "(\<And>x. skel_of (f x) = skel_of x) \<Longrightarrow> skel_of (update_at f p r) = skel_of r"
proof (induction p arbitrary: r)
  case Nil
  then show ?case by simp
next
  case (Cons i p)
  obtain a n s c h where r: "r = HNode a n s c h" by (cases r)
  have u: "map skel_of (cs[i := update_at f p (cs ! i)]) = map skel_of cs" for cs
    using Cons.IH [OF Cons.prems]
    by (cases "i < length cs") (simp_all add: map_update list_update_same_conv list_update_beyond)
  show ?case using r u by (cases c; cases h) simp_all
qed

lemma skel_of_collapse [simp]: "skel_of (collapse d) = skel_of d"
  by (induction d rule: collapse.induct) (simp split: option.splits)

lemma skel_of_unhide: "exclusive d \<Longrightarrow> skel_of (unhide d) = skel_of d"
  by (cases d) (auto split: option.splits)

lemma skel_of_expandAll: "exclusive d \<Longrightarrow> skel_of (expandAll d) = skel_of d"
  by (induction d rule: expandAll.induct) (auto simp: list_all_iff split: option.splits)

lemma skel_of_children_upd:
  "children d = Some cs \<Longrightarrow> skel_of x = skel_of (cs ! i) \<Longrightarrow>
   skel_of (HNode (nid d) (dname d) (dslug d) (Some (cs[i := x])) (hidden d)) = skel_of d"
  by (cases d; cases "i < length cs")
     (simp_all add: map_update list_update_same_conv list_update_beyond)

lemma skel_of_expandPath: "exclusive d \<Longrightarrow> skel_of (expandPath d path) = skel_of d"
proof (induction path arbitrary: d)
  case Nil
  then show ?case by simp
next
  case (Cons t rest)
  have u: "exclusive (unhide d)" using Cons.prems by (rule exclusive_unhide)
  have su: "skel_of (unhide d) = skel_of d" using Cons.prems by (rule skel_of_unhide)
  show ?case
  proof (cases "children (unhide d)")
    case None
    then show ?thesis using su by simp
  next
    case (Some cs)
    show ?thesis
    proof (cases "find_child t cs")
      case None
      then show ?thesis using su Some by simp
    next
      case (Some i)
      have "i < length cs" using Some by (rule find_child_less)
      then have "exclusive (cs ! i)" using u \<open>children (unhide d) = Some cs\<close>
        by (simp add: exclusive_children_nth)
      then have "skel_of (expandPath (cs ! i) rest) = skel_of (cs ! i)" by (rule Cons.IH)
      then have "skel_of (HNode (nid (unhide d)) (dname (unhide d)) (dslug (unhide d))
          (Some (cs[i := expandPath (cs ! i) rest])) (hidden (unhide d))) = skel_of (unhide d)"
        by (rule skel_of_children_upd [OF \<open>children (unhide d) = Some cs\<close>])
      then show ?thesis using \<open>children (unhide d) = Some cs\<close> Some su
        by (simp add: Let_def del: skel_of.simps)
    qed
  qed
qed

section \<open>The identifiers that loading assigns\<close>

lemma set_ids_list_length [simp]: "length (set_ids_list order pos i cs) = length cs"
  by (induction cs arbitrary: i) simp_all

lemma set_ids_list_nth:
  "j < length cs \<Longrightarrow> set_ids_list order pos i cs ! j = set_ids order (pos @ [i + j]) (cs ! j)"
proof (induction cs arbitrary: i j)
  case Nil
  then show ?case by simp
next
  case (Cons c cs)
  then show ?case by (cases j) simp_all
qed

lemma fresh_children_nth:
  "fresh d \<Longrightarrow> children d = Some cs \<Longrightarrow> i < length cs \<Longrightarrow> fresh (cs ! i)"
  by (cases d) (auto simp: list_all_length)

lemma fresh_hidden: "fresh d \<Longrightarrow> hidden d = None"
  by (cases d) simp

lemma node_at_set_ids:
  "fresh d \<Longrightarrow> node_at (set_ids order pos d) q = map_option (set_ids order (pos @ q)) (node_at d q)"
proof (induction q arbitrary: d pos)
  case Nil
  then show ?case by simp
next
  case (Cons i q)
  obtain a n s c h where d: "d = HNode a n s c h" by (cases d)
  have h: "h = None" using Cons.prems d by simp
  show ?case
  proof (cases c)
    case None
    then show ?thesis using d h by (simp add: kids_def)
  next
    case (Some cs)
    show ?thesis
    proof (cases "i < length cs")
      case False
      then show ?thesis using d h Some by (simp add: kids_def)
    next
      case True
      have "fresh (cs ! i)" using Cons.prems d Some True by (simp add: list_all_length)
      then have "node_at (set_ids order (pos @ [i]) (cs ! i)) q =
                 map_option (set_ids order ((pos @ [i]) @ q)) (node_at (cs ! i) q)"
        by (rule Cons.IH)
      then show ?thesis using d h Some True by (simp add: kids_def set_ids_list_nth)
    qed
  qed
qed

lemma nid_set_ids:
  "nid (set_ids order pos d) = (if pos \<in> set order then Some (index_of order pos) else nid d)"
  by (cases d) simp

lemma fresh_node_at_reachable: "fresh d \<Longrightarrow> node_at d q = Some x \<Longrightarrow> reachable d q"
proof (induction q arbitrary: d)
  case Nil
  then show ?case by simp
next
  case (Cons i q)
  obtain a n s c h where d: "d = HNode a n s c h" by (cases d)
  show ?case using Cons d
    by (auto simp: kids_def list_all_length split: option.splits if_splits)
qed

lemma index_of_nth: "x \<in> set xs \<Longrightarrow> xs ! index_of xs x = x"
  by (induction xs) auto

lemma index_of_inj: "x \<in> set xs \<Longrightarrow> y \<in> set xs \<Longrightarrow> index_of xs x = index_of xs y \<Longrightarrow> x = y"
  by (metis index_of_nth)

lemma assign_ids_nid:
  assumes "fresh r" and "node_at (assign_ids r) q = Some n"
  shows "q \<in> set (descendants r) \<and> nid n = Some (index_of (descendants r) q)"
proof -
  from assms obtain x where x: "node_at r q = Some x" and n: "n = set_ids (descendants r) q x"
    by (auto simp: assign_ids_def node_at_set_ids)
  have "reachable r q" using assms(1) x by (rule fresh_node_at_reachable)
  then have "q \<in> set (descendants r)" by (simp add: set_descendants)
  then show ?thesis using n by (simp add: nid_set_ids)
qed

lemma ids_inj_assign_ids:
  assumes "fresh r"
  shows "ids_inj (skel_of (assign_ids r))"
  unfolding ids_inj_def
proof (intro allI impI)
  fix q q' x x'
  assume h: "skel_at (skel_of (assign_ids r)) q = Some x \<and>
             skel_at (skel_of (assign_ids r)) q' = Some x' \<and> skel_id x = skel_id x'"
  then obtain n n' where n: "node_at (assign_ids r) q = Some n" "x = skel_of n"
    and n': "node_at (assign_ids r) q' = Some n'" "x' = skel_of n'"
    by (auto simp: skel_at_of)
  have "nid n = nid n'" using h n n' by simp
  then show "q = q'"
    using assign_ids_nid [OF assms n(1)] assign_ids_nid [OF assms n'(1)]
    by (auto dest: index_of_inj)
qed

lemma hierarchy_fresh:
  "hierarchy data = Inr r \<Longrightarrow> fresh r"
  "hierarchy_list ds = Inr rs \<Longrightarrow> list_all fresh rs"
   by (induction data and ds arbitrary: r and rs rule: hierarchy_hierarchy_list.induct)
      (auto split: option.splits sum.splits if_splits)

lemma fresh_set_ids:
  "fresh d \<Longrightarrow> fresh (set_ids order pos d)"
  "list_all fresh cs \<Longrightarrow> list_all fresh (set_ids_list order pos i cs)"
  by (induction order pos d and order pos i cs rule: set_ids_set_ids_list.induct)
     (auto split: option.splits)

lemma fresh_exclusive: "fresh d \<Longrightarrow> exclusive d"
  by (induction d rule: fresh.induct) (auto simp: list_all_iff split: option.splits)

lemma exclusive_collapsed_children:
  "exclusive r \<Longrightarrow> children r = Some cs \<Longrightarrow>
   exclusive (HNode (nid r) (dname r) (dslug r) (Some (map collapse cs)) (hidden r))"
  by (cases r) (auto simp: list_all_iff exclusive_collapse)

lemma skel_collapsed_children:
  "children r = Some cs \<Longrightarrow>
   skel_of (HNode (nid r) (dname r) (dslug r) (Some (map collapse cs)) (hidden r)) = skel_of r"
  "children r = Some cs \<Longrightarrow>
   skel_of (HNode (nid r) (dname r) (dslug r) None (Some (map collapse cs))) = skel_of r"
  by (cases r; simp)+

lemma landing_skel:
  assumes "exclusive r"
  shows "skel_of (fst (applyDefaultLandingState cfg r)) = skel_of r"
proof (cases "children r")
  case None
  then show ?thesis using assms
    by (simp add: applyDefaultLandingState_def skel_of_expandAll skel_of_expandPath)
next
  case (Some cs)
  have "skel_of (expandPath (HNode (nid r) (dname r) (dslug r) (Some (map collapse cs)) (hidden r))
      (defaultPath cfg)) = skel_of r"
    using skel_of_expandPath [OF exclusive_collapsed_children [OF assms Some]]
      skel_collapsed_children(1) [OF Some] by simp
  then show ?thesis using assms Some
    by (simp add: applyDefaultLandingState_def skel_of_expandAll skel_collapsed_children(2)
        del: skel_of.simps)
qed

lemma loadData_ids_inj:
  assumes "loadData cfg cb data = Inr st"
  shows "ids_inj (skel_of (root st))"
proof -
  from assms obtain r0 where r0: "hierarchy data = Inr r0"
    by (auto simp: loadData_def split: sum.splits)
  have f: "fresh r0" using r0 by (rule hierarchy_fresh)
  have e: "exclusive (assign_ids r0)"
    using f by (simp add: assign_ids_def fresh_set_ids fresh_exclusive)
  have "root st = fst (applyDefaultLandingState cfg (assign_ids r0))"
    using assms r0 by (auto simp: loadData_def Let_def split: prod.splits)
  then have "skel_of (root st) = skel_of (assign_ids r0)" using landing_skel [OF e] by simp
  then show ?thesis using ids_inj_assign_ids [OF f] by simp
qed

lemma root_foldl_selectNode: "root (foldl selectNode st ps) = root st"
  by (induction ps arbitrary: st) simp_all

lemma step_skel: "skel_of (root (step st ev)) = skel_of (root st)"
proof (cases ev)
  case (Click p)
  show ?thesis
  proof (cases "node_at (root st) p")
    case None
    then show ?thesis using Click by (simp add: handleNodeClick_def)
  next
    case (Some d)
    then show ?thesis using Click click_root [OF Some] by (simp add: skel_of_update_at)
  qed
next
  case (Select p)
  then show ?thesis by simp
next
  case Clear
  then show ?thesis by (simp add: clearSelection_def)
next
  case Timeout
  then show ?thesis by (simp add: runTimers_def root_foldl_selectNode)
qed

lemma run_skel: "skel_of (root (foldl step st evs)) = skel_of (root st)"
  by (induction evs arbitrary: st) (simp_all add: step_skel)

lemma node_at_prefix:
  "node_at r q = Some n \<Longrightarrow> prefix q' q \<Longrightarrow> \<exists>m. node_at r q' = Some m"
  by (auto simp: prefix_def node_at_append split: option.splits)

lemma set_ancestors:
  "set (ancestors r p) = {a. \<exists>p'. prefix p' p \<and> node_at r p' = Some a}"
  by (force simp: ancestors_def map_filter_def image_iff)


section \<open>Expanding along a path\<close>

lemma findNodeByPath_resolve:
  "findNodeByPath d path =
     (if snd (spec_resolve d path) then Some (fst (spec_resolve d path)) else None)"
proof (induction path arbitrary: d)
  case Nil
  then show ?case by simp
next
  case (Cons t rest)
  then show ?case by (auto split: option.splits prod.splits)
qed

lemma spec_resolve_valid: "\<exists>n. node_at d (fst (spec_resolve d path)) = Some n"
proof (induction path arbitrary: d)
  case Nil
  then show ?case by simp
next
  case (Cons t rest)
  show ?case
  proof (cases "kids d")
    case None
    then show ?thesis by simp
  next
    case (Some cs)
    show ?thesis
    proof (cases "find_child t cs")
      case None
      then show ?thesis using Some by simp
    next
      case (Some i)
      then show ?thesis using \<open>kids d = Some cs\<close> Cons.IH [of "cs ! i"] find_child_less [OF Some]
        by (auto split: prod.splits)
    qed
  qed
qed

lemma collapsed_all_collapse: "fresh d \<Longrightarrow> collapsed_all (collapse d)"
  by (induction d rule: collapse.induct) (auto simp: list_all_iff split: option.splits)

lemma collapsed_all_node_at:
  "collapsed_all c \<Longrightarrow> node_at c pos = Some n \<Longrightarrow> children n = None"
proof (induction pos arbitrary: c)
  case Nil
  then show ?case by (cases c) auto
next
  case (Cons i pos)
  obtain a nm s ch h where c: "c = HNode a nm s ch h" by (cases c)
  show ?case using Cons c
    by (auto simp: kids_def list_all_length split: option.splits if_splits)
qed

lemma collapsed_all_semi: "collapsed_all d \<Longrightarrow> semi_collapsed d"
  by (cases d) (auto simp: semi_collapsed_def kids_def split: option.splits)

lemma unhide_semi:
  "children d = None \<or> hidden d = None \<Longrightarrow>
   children (unhide d) = kids d \<and> hidden (unhide d) = None"
  by (cases d) (auto simp: kids_def split: option.splits)

lemma unhide_fields [simp]:
  "nid (unhide d) = nid d" "dname (unhide d) = dname d" "dslug (unhide d) = dslug d"
  by (cases d; simp split: option.splits)+

lemma dname_expandPath [simp]: "dname (expandPath d path) = dname d"
  by (cases path) (simp_all add: Let_def split: option.splits)

lemma find_child_update:
  "find_child t cs = Some i \<Longrightarrow> dname x = dname (cs ! i) \<Longrightarrow> find_child t (cs[i := x]) = Some i"
proof (induction cs arbitrary: i)
  case Nil
  then show ?case by simp
next
  case (Cons c cs)
  then show ?case by (cases i) (auto split: if_splits)
qed

lemma expandPath_expanded:
  assumes "collapsed_all d \<or> (path \<noteq> [] \<and> semi_collapsed d)"
    and "node_at (expandPath d path) pos = Some n"
  shows "children n \<noteq> None \<longleftrightarrow>
           kids n \<noteq> None \<and> prefix pos (fst (spec_resolve (expandPath d path) path)) \<and>
           (pos \<noteq> fst (spec_resolve (expandPath d path) path) \<or>
            \<not> snd (spec_resolve (expandPath d path) path))"
  using assms
proof (induction path arbitrary: d pos n)
  case Nil
  then have "children n = None" by (auto dest: collapsed_all_node_at)
  then show ?case by auto
next
  case (Cons t rest)
  have semi: "semi_collapsed d" using Cons.prems(1) by (auto simp: collapsed_all_semi)
  let ?d1 = "unhide d"
  have d1: "children ?d1 = kids d" "hidden ?d1 = None"
    using semi unhide_semi [of d] by (auto simp: semi_collapsed_def)
  have k1: "kids ?d1 = kids d" using d1 by (simp add: kids_def split: option.splits)
  show ?case
  proof (cases "kids d")
    case None
    have r: "expandPath d (t # rest) = ?d1" using None d1 by (simp add: Let_def)
    have "pos = []" using Cons.prems(2) r k1 None by (cases pos) simp_all
    then have "n = ?d1" using Cons.prems(2) r by simp
    then show ?thesis using d1 None k1 by simp
  next
    case (Some cs)
    have col: "\<And>j. j < length cs \<Longrightarrow> collapsed_all (cs ! j)"
      using semi Some by (simp add: semi_collapsed_def list_all_length)
    show ?thesis
    proof (cases "find_child t cs")
      case None
      have r: "expandPath d (t # rest) = ?d1" using None Some d1 by (simp add: Let_def)
      have sr: "spec_resolve ?d1 (t # rest) = ([], False)" using None Some k1 by simp
      show ?thesis
      proof (cases pos)
        case Nil
        then have "n = ?d1" using Cons.prems(2) r by simp
        then show ?thesis using Nil r sr d1 Some k1 by simp
      next
        case (Cons j pos')
        then have "j < length cs" "node_at (cs ! j) pos' = Some n"
          using Cons.prems(2) r k1 Some by (auto split: if_splits)
        then have "children n = None" using col collapsed_all_node_at by blast
        then show ?thesis using Cons r sr by simp
      qed
    next
      case (Some i)
      have i: "i < length cs" using Some by (rule find_child_less)
      let ?c = "expandPath (cs ! i) rest"
      let ?R = "HNode (nid ?d1) (dname ?d1) (dslug ?d1) (Some (cs[i := ?c])) (hidden ?d1)"
      have r: "expandPath d (t # rest) = ?R"
        using Some \<open>kids d = Some cs\<close> d1 by (simp add: Let_def)
      have kR: "kids ?R = Some (cs[i := ?c])" by (simp add: kids_def)
      have fc: "find_child t (cs[i := ?c]) = Some i"
        using Some by (rule find_child_update) simp
      have sr: "spec_resolve ?R (t # rest) =
                (i # fst (spec_resolve ?c rest), snd (spec_resolve ?c rest))"
        using kR fc i by (simp split: prod.splits)
      show ?thesis
      proof (cases pos)
        case Nil
        then have "n = ?R" using Cons.prems(2) r by simp
        then show ?thesis using Nil r sr kR by simp
      next
        case (Cons j pos')
        then have j: "j < length cs" and nj: "node_at (cs[i := ?c] ! j) pos' = Some n"
          using Cons.prems(2) r kR by (auto split: if_splits)
        show ?thesis
        proof (cases "j = i")
          case True
          then have "node_at ?c pos' = Some n" using nj i by simp
          then have "children n \<noteq> None \<longleftrightarrow>
             kids n \<noteq> None \<and> prefix pos' (fst (spec_resolve ?c rest)) \<and>
             (pos' \<noteq> fst (spec_resolve ?c rest) \<or> \<not> snd (spec_resolve ?c rest))"
            using Cons.IH [of "cs ! i" pos' n] col [OF i] by blast
          then show ?thesis using Cons True r sr by simp
        next
          case False
          then have "node_at (cs ! j) pos' = Some n" using nj by simp
          then have "children n = None" using col [OF j] collapsed_all_node_at by blast
          then show ?thesis using Cons False r sr by simp
        qed
      qed
    qed
  qed
qed

lemma path_landing_root:
  assumes "defaultLanding cfg = LPath" and "defaultPath cfg \<noteq> []"
    and "loadData cfg cb data = Inr st"
  shows "\<exists>r. semi_collapsed r \<and> root st = expandPath r (defaultPath cfg)"
proof -
  from assms(3) obtain r0 where r0: "hierarchy data = Inr r0"
    by (auto simp: loadData_def split: sum.splits)
  let ?r1 = "assign_ids r0"
  have f: "fresh ?r1" using hierarchy_fresh(1) [OF r0] by (simp add: assign_ids_def fresh_set_ids)
  let ?r = "case children ?r1 of
              Some cs \<Rightarrow> HNode (nid ?r1) (dname ?r1) (dslug ?r1) (Some (map collapse cs)) (hidden ?r1)
            | None \<Rightarrow> ?r1"
  have rt: "root st = expandPath ?r (defaultPath cfg)"
    using assms r0 by (auto simp: loadData_def applyDefaultLandingState_def Let_def)
  have "semi_collapsed ?r"
  proof (cases "children ?r1")
    case None
    then show ?thesis using fresh_hidden [OF f] by (simp add: semi_collapsed_def kids_def)
  next
    case (Some cs)
    have "collapsed_all (collapse c)" if "c \<in> set cs" for c
    proof -
      from that obtain i where "i < length cs" "c = cs ! i" by (auto simp: in_set_conv_nth)
      then have "fresh c" using fresh_children_nth [OF f Some] by simp
      then show ?thesis by (rule collapsed_all_collapse)
    qed
    then show ?thesis using Some fresh_hidden [OF f]
      by (simp add: semi_collapsed_def kids_def list_all_iff)
  qed
  then show ?thesis using rt by blast
qed

lemma path_landing_timers:
  assumes "defaultLanding cfg = LPath" and "defaultPath cfg \<noteq> []"
    and "loadData cfg cb data = Inr st"
  shows "timers st = applyDefaultSelection cfg (root st) \<and> selectedNode st = None"
  using assms by (auto simp: loadData_def Let_def split: sum.splits prod.splits)

lemma runTimers_selected:
  "selectedNode (runTimers st) =
     (case timers st of [] \<Rightarrow> selectedNode st
      | p # ps \<Rightarrow> selectedNode (foldl selectNode (st\<lparr> timers := [] \<rparr>) (p # ps)))"
  by (simp add: runTimers_def split: list.splits)

lemma example_bicycles:
  "selectedNode (runTimers (projr (loadData
      \<lparr> defaultLanding = LPath, defaultPath = [''Interests'', ''Bicycles''] \<rparr> cb
      (example_tree s0 s1 s2 s3)))) =
     (if s3 \<noteq> JNull \<and> s3 \<noteq> JUndefined then Some [0, 1] else None)"
  "root (projr (loadData
      \<lparr> defaultLanding = LPath, defaultPath = [''Interests'', ''Bicycles''] \<rparr> cb
      (example_tree s0 s1 s2 s3))) =
     HNode (Some 0) (JStr ''Root'') s0
       (Some [HNode (Some 1) (JStr ''Interests'') s1
                (Some [HNode (Some 2) (JStr ''Minerals'') s2 None None,
                       HNode (Some 3) (JStr ''Bicycles'') s3 None None]) None]) None"
  by (simp_all add: example_tree_def loadData_def assign_ids_def descendants_def
      applyDefaultLandingState_def applyDefaultSelection_def runTimers_def selectNode_def
      hasContent_def kids_def upt_rec Let_def)

lemma example_kites:
  "selectedNode (runTimers (projr (loadData
      \<lparr> defaultLanding = LPath, defaultPath = [''Interests'', ''Kites''] \<rparr> cb
      (example_tree s0 s1 s2 s3)))) = None"
  "root (projr (loadData
      \<lparr> defaultLanding = LPath, defaultPath = [''Interests'', ''Kites''] \<rparr> cb
      (example_tree s0 s1 s2 s3))) =
     HNode (Some 0) (JStr ''Root'') s0
       (Some [HNode (Some 1) (JStr ''Interests'') s1
                (Some [HNode (Some 2) (JStr ''Minerals'') s2 None None,
                       HNode (Some 3) (JStr ''Bicycles'') s3 None None]) None]) None"
  by (simp_all add: example_tree_def loadData_def assign_ids_def descendants_def
      applyDefaultLandingState_def applyDefaultSelection_def runTimers_def selectNode_def
      hasContent_def kids_def upt_rec Let_def)

section \<open>What is drawn\<close>

lemma hierarchy_no_null:
  "no_null data \<Longrightarrow> \<exists>r. hierarchy data = Inr r \<and> dname r = tname data"
  "list_all no_null ds \<Longrightarrow> \<exists>rs. hierarchy_list ds = Inr rs"
  by (induction data and ds rule: hierarchy_hierarchy_list.induct)
     (auto split: option.splits sum.splits)

lemma dname_set_ids [simp]: "dname (set_ids order pos d) = dname d"
  by (cases d) simp

lemma dname_collapse [simp]: "dname (collapse d) = dname d"
  by (cases d) (simp split: option.splits)

lemma dname_expandAll [simp]: "dname (expandAll d) = dname d"
  by (cases d) (simp split: option.splits)

lemma dname_landing: "dname (fst (applyDefaultLandingState cfg r)) = dname r"
  by (simp add: applyDefaultLandingState_def Let_def split: option.splits)

lemma reachable_node_at: "reachable d q \<Longrightarrow> \<exists>n. node_at d q = Some n"
proof (induction q arbitrary: d)
  case Nil
  then show ?case by simp
next
  case (Cons i q)
  then show ?case by (auto simp: kids_def split: option.splits)
qed

lemma descendants_hd: "\<exists>rest. descendants r = [] # rest"
proof -
  have "[0..<Suc (height r)] = 0 # [Suc 0..<Suc (height r)]" by (simp add: upt_rec)
  then show ?thesis by (simp add: descendants_def)
qed

lemma rendered_map:
  "rendered r = map (\<lambda>q. label (the (node_at r q))) (descendants r)"
proof -
  have "\<forall>q \<in> set qs. \<exists>n. node_at r q = Some n \<Longrightarrow>
        List.map_filter (\<lambda>q. map_option label (node_at r q)) qs =
        map (\<lambda>q. label (the (node_at r q))) qs" for qs
    by (induction qs) (auto simp: map_filter_simps)
  moreover have "\<forall>q \<in> set (descendants r). \<exists>n. node_at r q = Some n"
    by (simp add: set_descendants reachable_node_at)
  ultimately show ?thesis unfolding rendered_def by blast
qed

section \<open>The invariant in every state\<close>

lemma exclusive_update_at:
  "exclusive r \<Longrightarrow> (\<And>x. exclusive x \<Longrightarrow> exclusive (f x)) \<Longrightarrow> exclusive (update_at f p r)"
proof (induction p arbitrary: r)
  case Nil
  then show ?case by simp
next
  case (Cons i p)
  obtain a n s c h where r: "r = HNode a n s c h" by (cases r)
  have u: "list_all exclusive cs \<Longrightarrow> i < length cs \<Longrightarrow>
           list_all exclusive (cs[i := update_at f p (cs ! i)])" for cs
    using Cons.IH [of "cs ! i"] Cons.prems(2)
    by (auto simp: list_all_length nth_list_update)
  show ?case using r Cons.prems(1) u by (cases c; cases h) auto
qed

lemma landing_exclusive:
  assumes "exclusive r"
  shows "exclusive (fst (applyDefaultLandingState cfg r))"
proof (cases "children r")
  case None
  then show ?thesis using assms
    by (simp add: applyDefaultLandingState_def exclusive_expandAll exclusive_expandPath)
next
  case (Some cs)
  have a: "exclusive (HNode (nid r) (dname r) (dslug r) None (Some (map collapse cs)))"
    using assms Some by (cases r) (auto simp: list_all_iff exclusive_collapse)
  have b: "exclusive (expandPath (HNode (nid r) (dname r) (dslug r) (Some (map collapse cs)) (hidden r))
      (defaultPath cfg))"
    using exclusive_expandPath [OF exclusive_collapsed_children [OF assms Some]] .
  show ?thesis using assms Some a b
    by (simp add: applyDefaultLandingState_def exclusive_expandAll del: exclusive.simps)
qed

lemma loadData_exclusive:
  assumes "loadData cfg cb data = Inr st"
  shows "exclusive (root st)"
proof -
  from assms obtain r0 where r0: "hierarchy data = Inr r0"
    by (auto simp: loadData_def split: sum.splits)
  have e: "exclusive (assign_ids r0)"
    using hierarchy_fresh(1) [OF r0] by (simp add: assign_ids_def fresh_set_ids fresh_exclusive)
  have "root st = fst (applyDefaultLandingState cfg (assign_ids r0))"
    using assms r0 by (auto simp: loadData_def Let_def split: prod.splits)
  then show ?thesis using landing_exclusive [OF e] by simp
qed

lemma step_exclusive: "exclusive (root st) \<Longrightarrow> exclusive (root (step st ev))"
proof (cases ev)
  case (Click p)
  assume e: "exclusive (root st)"
  show ?thesis
  proof (cases "node_at (root st) p")
    case None
    then show ?thesis using Click e by (simp add: handleNodeClick_def)
  next
    case (Some d)
    then show ?thesis using Click click_root [OF Some] e
      by (simp add: exclusive_update_at exclusive_toggle)
  qed
next
  case (Select p)
  then show "exclusive (root st) \<Longrightarrow> ?thesis" by simp
next
  case Clear
  then show "exclusive (root st) \<Longrightarrow> ?thesis" by (simp add: clearSelection_def)
next
  case Timeout
  then show "exclusive (root st) \<Longrightarrow> ?thesis" by (simp add: runTimers_def root_foldl_selectNode)
qed

lemma run_exclusive: "exclusive (root st) \<Longrightarrow> exclusive (root (foldl step st evs))"
  by (induction evs arbitrary: st) (simp_all add: step_exclusive)

section \<open>The two child references exclude each other\<close>

text \<open>
  C9: \<open>collapse\<close>, \<open>expandAll\<close>, \<open>toggle\<close> and \<open>expandPath\<close> each keep the invariant that no
  node has its \<open>children\<close> and its \<open>_children\<close> both set; the invariant holds after
  \<open>loadData\<close> and in every state that clicks, selections and timers lead to from there;
  and \<open>toggle\<close> leaves a leaf (neither set) as it is.
\<close>

theorem exclusive_preserved:
  assumes "exclusive d"
  shows "exclusive (collapse d) \<and> exclusive (expandAll d) \<and> exclusive (toggle d) \<and>
         exclusive (expandPath d path) \<and> (isLeaf d \<longrightarrow> toggle d = d) \<and>
         (loadData cfg cb data = Inr st \<longrightarrow> exclusive (root (foldl step st evs)))"
  using assms
  by (simp add: exclusive_collapse exclusive_expandAll exclusive_toggle exclusive_expandPath
      toggle_leaf_id loadData_exclusive run_exclusive del: exclusive.simps)

theorem exclusive_preserved_witness:
  "exclusive (HNode (Some 0) (JStr ''Root'') JNull
      (Some [HNode (Some 1) (JStr ''A'') JNull None
               (Some [HNode (Some 2) (JStr ''B'') (JStr ''b'') None None])]) None) \<and>
   exclusive (expandPath (HNode (Some 0) (JStr ''Root'') JNull
      (Some [HNode (Some 1) (JStr ''A'') JNull None
               (Some [HNode (Some 2) (JStr ''B'') (JStr ''b'') None None])]) None) [''A'', ''B'']) \<and>
   exclusive (collapse (HNode (Some 0) (JStr ''Root'') JNull
      (Some [HNode (Some 1) (JStr ''A'') JNull None
               (Some [HNode (Some 2) (JStr ''B'') (JStr ''b'') None None])]) None)) \<and>
   loadData \<lparr> defaultLanding = LCollapsed, defaultPath = [] \<rparr> True
     (example_tree (JStr ''about'') JNull (JStr ''minerals'') (JStr ''bicycles'')) =
     Inr example_collapsed \<and>
   exclusive (root (foldl step example_collapsed [Click [], Click [0]])) \<and>
   isLeaf (HNode (Some 2) (JStr ''B'') (JStr ''b'') None None) \<and>
   toggle (HNode (Some 2) (JStr ''B'') (JStr ''b'') None None) =
     HNode (Some 2) (JStr ''B'') (JStr ''b'') None None"
proof -
  have l: "loadData \<lparr> defaultLanding = LCollapsed, defaultPath = [] \<rparr> True
     (example_tree (JStr ''about'') JNull (JStr ''minerals'') (JStr ''bicycles'')) =
     Inr example_collapsed"
    by code_simp
  show ?thesis
    using l exclusive_preserved [of "HNode (Some 0) (JStr ''Root'') JNull
        (Some [HNode (Some 1) (JStr ''A'') JNull None
                 (Some [HNode (Some 2) (JStr ''B'') (JStr ''b'') None None])]) None" "[''A'', ''B'']"
        "\<lparr> defaultLanding = LCollapsed, defaultPath = [] \<rparr>" True
        "example_tree (JStr ''about'') JNull (JStr ''minerals'') (JStr ''bicycles'')"
        example_collapsed "[Click [], Click [0]]"]
      exclusive_preserved [of "HNode (Some 2) (JStr ''B'') (JStr ''b'') None None" "[]"]
    by (simp add: isLeaf_def del: foldl.simps)
qed

section \<open>Selecting a node\<close>

text \<open>
  C10: \<open>selectNode(d)\<close> makes \<open>d\<close> the selected node in every case; the callback is invoked,
  with the slug and the name of \<open>d\<close>, exactly when a callback is set and the slug is
  truthy. A node whose slug is the empty string carries content for \<open>hasContent\<close> and is
  selected, but no callback is invoked for it.
\<close>

theorem selectNode_callback:
  assumes "node_at (root st) p = Some d"
  shows "selectedNode (selectNode st p) = Some p \<and>
         root (selectNode st p) = root st \<and>
         calls (selectNode st p) =
           (if onNodeSelect st \<and> truthy (dslug d) then calls st @ [(dslug d, dname d)]
            else calls st) \<and>
         (dslug d = JStr [] \<longrightarrow> hasContent d \<and> calls (selectNode st p) = calls st)"
  using assms by (auto simp: selectNode_def hasContent_def Let_def)

theorem selectNode_callback_witness:
  "node_at (HNode (Some 0) (JStr ''Root'') (JStr []) None None) [] =
     Some (HNode (Some 0) (JStr ''Root'') (JStr []) None None) \<and>
   hasContent (HNode (Some 0) (JStr ''Root'') (JStr []) None None) \<and>
   selectedNode (selectNode \<lparr> root = HNode (Some 0) (JStr ''Root'') (JStr []) None None,
       selectedNode = None, onNodeSelect = True, isTreeExpanded = False, calls = [],
       timers = [] \<rparr> []) = Some [] \<and>
   calls (selectNode \<lparr> root = HNode (Some 0) (JStr ''Root'') (JStr []) None None,
       selectedNode = None, onNodeSelect = True, isTreeExpanded = False, calls = [],
       timers = [] \<rparr> []) = []"
  using selectNode_callback [of "\<lparr> root = HNode (Some 0) (JStr ''Root'') (JStr []) None None,
       selectedNode = None, onNodeSelect = True, isTreeExpanded = False, calls = [],
       timers = [] \<rparr>" "[]" "HNode (Some 0) (JStr ''Root'') (JStr []) None None"]
  by simp

section \<open>Clicks\<close>

text \<open>
  C4, as stated, excepts only the very first click on the collapsed root from selecting.
  The guard of the code is \<open>isRoot(d) && isCollapsed()\<close>: after the root has been
  expanded by a first click, collapsed again by a second and the selection cleared, a
  third click on the root, which carries content, expands it and selects nothing.
\<close>

theorem later_root_click_counterexample:
  "isTreeExpanded (foldl step example_collapsed [Click [], Click [], Clear]) \<and>
   hasContent (root (foldl step example_collapsed [Click [], Click [], Clear])) \<and>
   isCollapsed (root (foldl step example_collapsed [Click [], Click [], Clear])) \<and>
   selectedNode (foldl step example_collapsed [Click [], Click [], Clear]) = None \<and>
   selectedNode (handleNodeClick (foldl step example_collapsed [Click [], Click [], Clear]) []) = None \<and>
   calls (handleNodeClick (foldl step example_collapsed [Click [], Click [], Clear]) []) =
     calls (foldl step example_collapsed [Click [], Click [], Clear])"
  by (simp add: example_collapsed_eq handleNodeClick_def selectNode_def clearSelection_def
      isRoot_def isCollapsed_def hasContent_def kids_def)

text \<open>
  C4, amended: a click on a node toggles its expand state if it has children, visible or
  hidden, and selects it if it carries content, except that every click on the root
  while the root is collapsed, not only the first, toggles the root only and leaves the
  selection and the callback alone.
\<close>

theorem handleNodeClick_effect:
  assumes "node_at (root st) p = Some d"
  shows "(isRoot p \<and> isCollapsed (root st) \<longrightarrow>
            root (handleNodeClick st p) = toggle (root st) \<and>
            selectedNode (handleNodeClick st p) = selectedNode st \<and>
            calls (handleNodeClick st p) = calls st) \<and>
         (\<not> (isRoot p \<and> isCollapsed (root st)) \<longrightarrow>
            selectedNode (handleNodeClick st p) = (if hasContent d then Some p else selectedNode st) \<and>
            calls (handleNodeClick st p) =
              (if hasContent d \<and> onNodeSelect st \<and> truthy (dslug d)
               then calls st @ [(dslug d, dname d)] else calls st)) \<and>
         node_at (root (handleNodeClick st p)) p = Some (toggle d) \<and>
         (\<not> isLeaf d \<longrightarrow> (children (toggle d) = None) = (children d \<noteq> None)) \<and>
         (isLeaf d \<longrightarrow> toggle d = d)"
proof -
  have a: "node_at (root (handleNodeClick st p)) p = Some (toggle d)"
    using node_at_update_at [OF assms, of toggle "[]"] click_root [OF assms] by simp
  have b: "isLeaf d \<longrightarrow> toggle d = d" by (cases d) (simp add: isLeaf_def)
  show ?thesis using assms a b toggle_flips [of d]
    by (auto simp: handleNodeClick_def selectNode_def isRoot_def Let_def)
qed


theorem handleNodeClick_effect_witness:
  "isRoot [] \<and> isCollapsed (root example_collapsed) \<and>
   hasContent (root example_collapsed) \<and>
   selectedNode (handleNodeClick example_collapsed []) = None \<and>
   \<not> isCollapsed (root (handleNodeClick example_collapsed [])) \<and>
   selectedNode (handleNodeClick (handleNodeClick example_collapsed []) []) = Some [] \<and>
   calls (handleNodeClick (handleNodeClick example_collapsed []) []) = [(JStr ''about'', JStr ''Root'')] \<and>
   isCollapsed (root (handleNodeClick (handleNodeClick example_collapsed []) []))"
  using handleNodeClick_effect [of example_collapsed "[]" "root example_collapsed"]
    handleNodeClick_effect [of "handleNodeClick example_collapsed []" "[]"
      "root (handleNodeClick example_collapsed [])"]
  by (simp add: example_collapsed_eq handleNodeClick_def selectNode_def
      isRoot_def isCollapsed_def hasContent_def kids_def)

section \<open>Collapsing and expanding again\<close>

text \<open>
  C2: a click on a node with visible children takes exactly the positions below it out
  of the visible set and leaves every node below it as it was, with its own children
  visible or hidden as before; a second click on the same node right after brings the
  visible positions back to what they were.
\<close>

theorem toggle_twice_restores:
  assumes "node_at (root st) p = Some d" and "children d \<noteq> None"
  shows "set (descendants (root (handleNodeClick st p))) =
           {q \<in> set (descendants (root st)). \<not> strict_prefix p q} \<and>
         (\<forall>q. strict_prefix p q \<longrightarrow>
              node_at (root (handleNodeClick st p)) q = node_at (root st) q) \<and>
         descendants (root (handleNodeClick (handleNodeClick st p) p)) = descendants (root st)"
proof -
  have r1: "root (handleNodeClick st p) = update_at toggle p (root st)"
    using assms(1) by (rule click_root)
  have n1: "node_at (root (handleNodeClick st p)) p = Some (toggle d)"
    using node_at_update_at [OF assms(1), of toggle "[]"] r1 by simp
  have r2: "root (handleNodeClick (handleNodeClick st p) p) =
            update_at (\<lambda>x. toggle (toggle x)) p (root st)"
    using click_root [OF n1] r1 by (simp add: update_at_twice)
  have a: "set (descendants (root (handleNodeClick st p))) =
           {q \<in> set (descendants (root st)). \<not> strict_prefix p q}"
    unfolding r1 set_descendants using reachable_update_toggle [OF assms] by auto
  have b: "node_at (root (handleNodeClick st p)) q = node_at (root st) q"
    if "strict_prefix p q" for q
  proof -
    from that obtain s where q: "q = p @ s" and s: "s \<noteq> []"
      by (auto simp: strict_prefix_def prefix_def)
    show ?thesis unfolding r1 q
      using node_at_update_at [OF assms(1), of toggle s] assms(1) s
      by (simp add: node_at_append node_at_toggle_below)
  qed
  have c: "descendants (root (handleNodeClick (handleNodeClick st p) p)) = descendants (root st)"
    unfolding r2 by (rule descendants_update_at) (rule children_toggle_toggle)
  show ?thesis using a b c by blast
qed

theorem toggle_twice_restores_witness:
  "node_at (root (foldl step example_collapsed [Click [], Click [0]])) [0] =
     Some (HNode (Some 1) (JStr ''Interests'') JNull
            (Some [HNode (Some 2) (JStr ''Minerals'') (JStr ''minerals'') None None,
                   HNode (Some 3) (JStr ''Bicycles'') (JStr ''bicycles'') None None]) None) \<and>
   descendants (root (foldl step example_collapsed [Click [], Click [0]])) =
     [[], [0], [0, 0], [0, 1]] \<and>
   descendants (root (handleNodeClick (foldl step example_collapsed [Click [], Click [0]]) [0])) =
     [[], [0]] \<and>
   node_at (root (handleNodeClick (foldl step example_collapsed [Click [], Click [0]]) [0])) [0, 1] =
     Some (HNode (Some 3) (JStr ''Bicycles'') (JStr ''bicycles'') None None) \<and>
   descendants (root (handleNodeClick (handleNodeClick
       (foldl step example_collapsed [Click [], Click [0]]) [0]) [0])) =
     [[], [0], [0, 0], [0, 1]]"
proof -
  have h1: "node_at (root (foldl step example_collapsed [Click [], Click [0]])) [0] =
     Some (HNode (Some 1) (JStr ''Interests'') JNull
            (Some [HNode (Some 2) (JStr ''Minerals'') (JStr ''minerals'') None None,
                   HNode (Some 3) (JStr ''Bicycles'') (JStr ''bicycles'') None None]) None)"
    by code_simp
  have h2: "children (HNode (Some 1) (JStr ''Interests'') JNull
            (Some [HNode (Some 2) (JStr ''Minerals'') (JStr ''minerals'') None None,
                   HNode (Some 3) (JStr ''Bicycles'') (JStr ''bicycles'') None None]) None) \<noteq> None"
    by simp
  have e1: "descendants (root (foldl step example_collapsed [Click [], Click [0]])) =
     [[], [0], [0, 0], [0, 1]]" by code_simp
  have e2: "descendants (root (handleNodeClick (foldl step example_collapsed [Click [], Click [0]]) [0])) =
     [[], [0]]" by code_simp
  have e3: "node_at (root (handleNodeClick (foldl step example_collapsed [Click [], Click [0]]) [0])) [0, 1] =
     Some (HNode (Some 3) (JStr ''Bicycles'') (JStr ''bicycles'') None None)" by code_simp
  from toggle_twice_restores [OF h1 h2] e1
  have "descendants (root (handleNodeClick (handleNodeClick
       (foldl step example_collapsed [Click [], Click [0]]) [0]) [0])) = [[], [0], [0, 0], [0, 1]]"
    by (elim conjE) (rule trans)
  then show ?thesis using h1 e1 e2 e3 by (intro conjI)
qed

section \<open>The active path\<close>

text \<open>
  C5: in every state reached from a loaded tree by clicks, selections, clearings and
  timers, after \<open>selectNode(d)\<close> a node is classified as on the active path exactly when
  it is \<open>d\<close> or an ancestor of \<open>d\<close>, that is when its position is a prefix of the position
  of \<open>d\<close>; the active links are those that end in these nodes. After \<open>clearSelection()\<close>
  no node and no link is active.
\<close>

theorem active_path_is_ancestor_chain:
  assumes "loadData cfg cb data = Inr st0" and "st = foldl step st0 evs"
    and "node_at (root st) p = Some d" and "node_at (root st) q = Some n"
  shows "(isOnActivePath (selectNode st p) n \<longleftrightarrow> prefix q p) \<and>
         (nodeActive (selectNode st p) n \<longleftrightarrow> prefix q p) \<and>
         (linkActive (selectNode st p) q \<longleftrightarrow> prefix q p \<and> q \<noteq> []) \<and>
         \<not> isOnActivePath (clearSelection st) n \<and> \<not> nodeActive (clearSelection st) n \<and>
         \<not> linkActive (clearSelection st) q"
proof -
  have inj: "ids_inj (skel_of (root st))"
    using loadData_ids_inj [OF assms(1)] assms(2) by (simp add: run_skel)
  have sel: "selectedNode (selectNode st p) = Some p" and rt: "root (selectNode st p) = root st"
    using assms(3) by (simp_all add: selectNode_def Let_def)
  have key: "(nid x \<in> nid ` set (ancestors (root st) p)) \<longleftrightarrow> prefix q' p"
    if "node_at (root st) q' = Some x" for q' x
  proof
    assume "nid x \<in> nid ` set (ancestors (root st) p)"
    then obtain a p' where "prefix p' p" "node_at (root st) p' = Some a" "nid a = nid x"
      by (auto simp: set_ancestors)
    then show "prefix q' p" using ids_inj_node_at [OF inj _ that] by auto
  next
    assume "prefix q' p"
    then show "nid x \<in> nid ` set (ancestors (root st) p)"
      using that by (auto simp: set_ancestors intro!: image_eqI [where x = x])
  qed
  have "isOnActivePath (selectNode st p) n \<longleftrightarrow>
        (\<exists>a\<in>set (ancestors (root st) p). nid a = nid n)"
    by (simp add: isOnActivePath_def sel rt list_ex_iff)
  also have "\<dots> \<longleftrightarrow> nid n \<in> nid ` set (ancestors (root st) p)"
    by (metis imageE image_eqI)
  finally have a: "isOnActivePath (selectNode st p) n \<longleftrightarrow> prefix q p"
    using key [OF assms(4)] by simp
  have b: "nodeActive (selectNode st p) n \<longleftrightarrow> prefix q p"
    using a by (simp add: nodeActive_def sel)
  have c: "linkActive (selectNode st p) q \<longleftrightarrow> prefix q p \<and> q \<noteq> []"
  proof (cases "q = []")
    case True
    then show ?thesis using assms(4) by (simp add: linkActive_def sel rt)
  next
    case False
    obtain m where m: "node_at (root st) (butlast q) = Some m"
      using node_at_prefix [OF assms(4), of "butlast q"] by (auto simp: prefixeq_butlast)
    have "prefix q p \<Longrightarrow> prefix (butlast q) p"
      using prefix_order.trans [OF prefixeq_butlast] by blast
    then show ?thesis using False key [OF assms(4)] key [OF m] assms(4) m
      by (auto simp: linkActive_def sel rt)
  qed
  show ?thesis using a b c
    by (simp add: isOnActivePath_def nodeActive_def linkActive_def clearSelection_def)
qed


theorem active_path_is_ancestor_chain_witness:
  "loadData \<lparr> defaultLanding = LCollapsed, defaultPath = [] \<rparr> True
     (example_tree (JStr ''about'') JNull (JStr ''minerals'') (JStr ''bicycles'')) =
     Inr example_collapsed \<and>
   node_at (root (foldl step example_collapsed [Click [], Click [0]])) [0, 1] =
     Some (HNode (Some 3) (JStr ''Bicycles'') (JStr ''bicycles'') None None) \<and>
   isOnActivePath (selectNode (foldl step example_collapsed [Click [], Click [0]]) [0, 1])
     (HNode (Some 1) (JStr ''Interests'') JNull
        (Some [HNode (Some 2) (JStr ''Minerals'') (JStr ''minerals'') None None,
               HNode (Some 3) (JStr ''Bicycles'') (JStr ''bicycles'') None None]) None) \<and>
   \<not> isOnActivePath (selectNode (foldl step example_collapsed [Click [], Click [0]]) [0, 1])
     (HNode (Some 2) (JStr ''Minerals'') (JStr ''minerals'') None None) \<and>
   linkActive (selectNode (foldl step example_collapsed [Click [], Click [0]]) [0, 1]) [0] \<and>
   \<not> linkActive (selectNode (foldl step example_collapsed [Click [], Click [0]]) [0, 1]) [0, 0] \<and>
   \<not> linkActive (clearSelection (foldl step example_collapsed [Click [], Click [0]])) [0]"
proof -
  have h1: "loadData \<lparr> defaultLanding = LCollapsed, defaultPath = [] \<rparr> True
     (example_tree (JStr ''about'') JNull (JStr ''minerals'') (JStr ''bicycles'')) =
     Inr example_collapsed"
    by code_simp
  have h3: "node_at (root (foldl step example_collapsed [Click [], Click [0]])) [0, 1] =
     Some (HNode (Some 3) (JStr ''Bicycles'') (JStr ''bicycles'') None None)"
    by code_simp
  have h4: "node_at (root (foldl step example_collapsed [Click [], Click [0]])) [0] =
     Some (HNode (Some 1) (JStr ''Interests'') JNull
        (Some [HNode (Some 2) (JStr ''Minerals'') (JStr ''minerals'') None None,
               HNode (Some 3) (JStr ''Bicycles'') (JStr ''bicycles'') None None]) None)"
    by code_simp
  have h5: "node_at (root (foldl step example_collapsed [Click [], Click [0]])) [0, 0] =
     Some (HNode (Some 2) (JStr ''Minerals'') (JStr ''minerals'') None None)"
    by code_simp
  show ?thesis
    using h1 h3 active_path_is_ancestor_chain [OF h1 refl h3 h4]
      active_path_is_ancestor_chain [OF h1 refl h3 h5]
    by simp
qed

section \<open>Landing on a path\<close>

text \<open>
  C1: under the \<open>path\<close> policy with a non-empty path, after \<open>loadData\<close> the expanded nodes
  are exactly the nodes with children on the way from the root to the last node that the
  names of the path match, that node itself included only when the path did not resolve
  in full; nothing is selected at once, and when the timer has run the node that the
  full path resolves to is selected if and only if it carries content, and no node
  otherwise. For the tree \<open>Root \<rightarrow> Interests \<rightarrow> {Minerals, Bicycles}\<close>, whatever its
  slugs, the path \<open>["Interests", "Bicycles"]\<close> selects \<open>Bicycles\<close> when it carries content,
  and \<open>["Interests", "Kites"]\<close> leaves \<open>Interests\<close> expanded and nothing selected.
\<close>

theorem path_landing:
  "(defaultLanding cfg = LPath \<and> defaultPath cfg \<noteq> [] \<and> loadData cfg cb data = Inr st \<longrightarrow>
      (case spec_resolve (root st) (defaultPath cfg) of
         (q, full) \<Rightarrow>
           (\<forall>pos n. node_at (root st) pos = Some n \<longrightarrow>
              (children n \<noteq> None \<longleftrightarrow> kids n \<noteq> None \<and> prefix pos q \<and> (pos \<noteq> q \<or> \<not> full))) \<and>
           selectedNode st = None \<and>
           selectedNode (runTimers st) =
             (if full \<and> (\<exists>d. node_at (root st) q = Some d \<and> hasContent d) then Some q else None))) \<and>
   selectedNode (runTimers (projr (loadData
      \<lparr> defaultLanding = LPath, defaultPath = [''Interests'', ''Bicycles''] \<rparr> cb
      (example_tree s0 s1 s2 s3)))) =
     (if s3 \<noteq> JNull \<and> s3 \<noteq> JUndefined then Some [0, 1] else None) \<and>
   node_at (root (projr (loadData
      \<lparr> defaultLanding = LPath, defaultPath = [''Interests'', ''Bicycles''] \<rparr> cb
      (example_tree s0 s1 s2 s3)))) [0, 1] = Some (HNode (Some 3) (JStr ''Bicycles'') s3 None None) \<and>
   selectedNode (runTimers (projr (loadData
      \<lparr> defaultLanding = LPath, defaultPath = [''Interests'', ''Kites''] \<rparr> cb
      (example_tree s0 s1 s2 s3)))) = None \<and>
   root (projr (loadData
      \<lparr> defaultLanding = LPath, defaultPath = [''Interests'', ''Kites''] \<rparr> cb
      (example_tree s0 s1 s2 s3))) =
     HNode (Some 0) (JStr ''Root'') s0
       (Some [HNode (Some 1) (JStr ''Interests'') s1
                (Some [HNode (Some 2) (JStr ''Minerals'') s2 None None,
                       HNode (Some 3) (JStr ''Bicycles'') s3 None None]) None]) None"
proof -
  have general: "case spec_resolve (root st) (defaultPath cfg) of
         (q, full) \<Rightarrow>
           (\<forall>pos n. node_at (root st) pos = Some n \<longrightarrow>
              (children n \<noteq> None \<longleftrightarrow> kids n \<noteq> None \<and> prefix pos q \<and> (pos \<noteq> q \<or> \<not> full))) \<and>
           selectedNode st = None \<and>
           selectedNode (runTimers st) =
             (if full \<and> (\<exists>d. node_at (root st) q = Some d \<and> hasContent d) then Some q else None)"
    if a: "defaultLanding cfg = LPath" "defaultPath cfg \<noteq> []" "loadData cfg cb data = Inr st"
  proof -
    let ?path = "defaultPath cfg"
    obtain q full where sr: "spec_resolve (root st) ?path = (q, full)"
      by (cases "spec_resolve (root st) ?path")
    obtain r where r: "semi_collapsed r" "root st = expandPath r ?path"
      using path_landing_root [OF a] by blast
    have exp: "children n \<noteq> None \<longleftrightarrow> kids n \<noteq> None \<and> prefix pos q \<and> (pos \<noteq> q \<or> \<not> full)"
      if "node_at (root st) pos = Some n" for pos n
      using expandPath_expanded [of r ?path pos n] r a(2) that sr by simp
    obtain d where d: "node_at (root st) q = Some d"
      using spec_resolve_valid [of "root st" ?path] sr by auto
    have tm: "timers st = (if full \<and> hasContent d then [q] else [])" and sel: "selectedNode st = None"
      using path_landing_timers [OF a] a(1,2) sr d
      by (simp_all add: applyDefaultSelection_def findNodeByPath_resolve)
    have "selectedNode (runTimers st) = (if full \<and> hasContent d then Some q else None)"
      using tm sel d by (simp add: runTimers_selected selectNode_def Let_def)
    then show ?thesis using exp sel d sr by simp
  qed
  show ?thesis using general example_bicycles [of cb s0 s1 s2 s3] example_kites [of cb s0 s1 s2 s3]
    by (simp add: kids_def)
qed


theorem path_landing_witness:
  "loadData \<lparr> defaultLanding = LPath, defaultPath = [''Interests'', ''Bicycles''] \<rparr> True
      (example_tree (JStr ''about'') JNull (JStr ''minerals'') (JStr ''bicycles'')) = Inr (projr (loadData
      \<lparr> defaultLanding = LPath, defaultPath = [''Interests'', ''Bicycles''] \<rparr> True
      (example_tree (JStr ''about'') JNull (JStr ''minerals'') (JStr ''bicycles'')))) \<and>
   spec_resolve (root (projr (loadData
      \<lparr> defaultLanding = LPath, defaultPath = [''Interests'', ''Bicycles''] \<rparr> True
      (example_tree (JStr ''about'') JNull (JStr ''minerals'') (JStr ''bicycles''))))) [''Interests'', ''Bicycles''] = ([0, 1], True) \<and>
   selectedNode (projr (loadData
      \<lparr> defaultLanding = LPath, defaultPath = [''Interests'', ''Bicycles''] \<rparr> True
      (example_tree (JStr ''about'') JNull (JStr ''minerals'') (JStr ''bicycles'')))) = None \<and>
   selectedNode (runTimers (projr (loadData
      \<lparr> defaultLanding = LPath, defaultPath = [''Interests'', ''Bicycles''] \<rparr> True
      (example_tree (JStr ''about'') JNull (JStr ''minerals'') (JStr ''bicycles''))))) = Some [0, 1] \<and>
   calls (runTimers (projr (loadData
      \<lparr> defaultLanding = LPath, defaultPath = [''Interests'', ''Bicycles''] \<rparr> True
      (example_tree (JStr ''about'') JNull (JStr ''minerals'') (JStr ''bicycles''))))) = [(JStr ''bicycles'', JStr ''Bicycles'')]"
proof -
  let ?cfg = "\<lparr> defaultLanding = LPath, defaultPath = [''Interests'', ''Bicycles''] \<rparr>"
  have h: "loadData ?cfg True
      (example_tree (JStr ''about'') JNull (JStr ''minerals'') (JStr ''bicycles'')) = Inr (projr (loadData
      \<lparr> defaultLanding = LPath, defaultPath = [''Interests'', ''Bicycles''] \<rparr> True
      (example_tree (JStr ''about'') JNull (JStr ''minerals'') (JStr ''bicycles''))))"
    by code_simp
  have sr: "spec_resolve (root (projr (loadData
      \<lparr> defaultLanding = LPath, defaultPath = [''Interests'', ''Bicycles''] \<rparr> True
      (example_tree (JStr ''about'') JNull (JStr ''minerals'') (JStr ''bicycles''))))) [''Interests'', ''Bicycles''] = ([0, 1], True)"
    by code_simp
  have n: "node_at (root (projr (loadData
      \<lparr> defaultLanding = LPath, defaultPath = [''Interests'', ''Bicycles''] \<rparr> True
      (example_tree (JStr ''about'') JNull (JStr ''minerals'') (JStr ''bicycles''))))) [0, 1] =
           Some (HNode (Some 3) (JStr ''Bicycles'') (JStr ''bicycles'') None None)"
    by code_simp
  have c: "calls (runTimers (projr (loadData
      \<lparr> defaultLanding = LPath, defaultPath = [''Interests'', ''Bicycles''] \<rparr> True
      (example_tree (JStr ''about'') JNull (JStr ''minerals'') (JStr ''bicycles''))))) = [(JStr ''bicycles'', JStr ''Bicycles'')]"
    by code_simp
  have "selectedNode (projr (loadData
      \<lparr> defaultLanding = LPath, defaultPath = [''Interests'', ''Bicycles''] \<rparr> True
      (example_tree (JStr ''about'') JNull (JStr ''minerals'') (JStr ''bicycles'')))) = None \<and> selectedNode (runTimers (projr (loadData
      \<lparr> defaultLanding = LPath, defaultPath = [''Interests'', ''Bicycles''] \<rparr> True
      (example_tree (JStr ''about'') JNull (JStr ''minerals'') (JStr ''bicycles''))))) = Some [0, 1]"
    using path_landing [of ?cfg True
        "example_tree (JStr ''about'') JNull (JStr ''minerals'') (JStr ''bicycles'')" "(projr (loadData
      \<lparr> defaultLanding = LPath, defaultPath = [''Interests'', ''Bicycles''] \<rparr> True
      (example_tree (JStr ''about'') JNull (JStr ''minerals'') (JStr ''bicycles''))))",
        THEN conjunct1] h sr n
    by (simp add: hasContent_def)
  then show ?thesis using h sr c by simp
qed

section \<open>Tree data without a name\<close>

text \<open>
  C8, as stated, has \<open>loadData\<close> fail silently with an empty render when the root has no
  name. Nothing in \<open>loadData\<close> looks at the name: under the \<open>expanded\<close> policy, a root
  without a name and with two children is loaded and drawn in full, three nodes, the
  root with an empty label.
\<close>

theorem nameless_root_counterexample:
  "loadData \<lparr> defaultLanding = LExpanded, defaultPath = [] \<rparr> True
     (TObj JUndefined JNull (Some [TObj (JStr ''A'') (JStr ''a'') None,
                                   TObj (JStr ''B'') (JStr ''b'') None])) =
     Inr \<lparr> root = HNode (Some 0) JUndefined JNull
              (Some [HNode (Some 1) (JStr ''A'') (JStr ''a'') None None,
                     HNode (Some 2) (JStr ''B'') (JStr ''b'') None None]) None,
           selectedNode = None, onNodeSelect = True, isTreeExpanded = True, calls = [],
           timers = [] \<rparr> \<and>
   rendered (HNode (Some 0) JUndefined JNull
              (Some [HNode (Some 1) (JStr ''A'') (JStr ''a'') None None,
                     HNode (Some 2) (JStr ''B'') (JStr ''b'') None None]) None) =
     [[], ''A'', ''B'']"
  by code_simp

text \<open>
  C8, amended: when every node of the tree data is an object, \<open>loadData\<close> raises nothing,
  whether or not a name is missing, and draws the tree as usual: one labelled node for
  each visible node, the root first, a node without a name with the empty label.
\<close>

theorem nameless_root_renders:
  assumes "no_null data"
  shows "\<exists>st rest. loadData cfg cb data = Inr st \<and>
           rendered (root st) = (case tname data of JStr s \<Rightarrow> s | _ \<Rightarrow> []) # rest \<and>
           length (rendered (root st)) = length (descendants (root st))"
proof -
  obtain r0 where r0: "hierarchy data = Inr r0" "dname r0 = tname data"
    using hierarchy_no_null(1) [OF assms] by blast
  obtain st where st: "loadData cfg cb data = Inr st"
    using r0(1) by (cases "applyDefaultLandingState cfg (assign_ids r0)") (simp add: loadData_def Let_def)
  have "root st = fst (applyDefaultLandingState cfg (assign_ids r0))"
    using st r0(1) by (auto simp: loadData_def Let_def split: prod.splits)
  then have nm: "dname (root st) = tname data"
    using r0(2) by (simp add: dname_landing assign_ids_def)
  obtain rest where "descendants (root st) = [] # rest" using descendants_hd by blast
  then have "rendered (root st) = label (root st) # map (\<lambda>q. label (the (node_at (root st) q))) rest"
    by (simp add: rendered_map)
  then show ?thesis using st nm by (auto simp: rendered_map)
qed

theorem nameless_root_renders_witness:
  "no_null (TObj JUndefined (JStr ''about'') (Some [TObj (JStr ''A'') (JStr ''a'') None])) \<and>
   loadData \<lparr> defaultLanding = LCollapsed, defaultPath = [] \<rparr> True
       (TObj JUndefined (JStr ''about'') (Some [TObj (JStr ''A'') (JStr ''a'') None])) =
     Inr \<lparr> root = HNode (Some 0) JUndefined (JStr ''about'') None
              (Some [HNode (Some 1) (JStr ''A'') (JStr ''a'') None None]),
           selectedNode = None, onNodeSelect = True, isTreeExpanded = False, calls = [],
           timers = [] \<rparr> \<and>
   rendered (HNode (Some 0) JUndefined (JStr ''about'') None
              (Some [HNode (Some 1) (JStr ''A'') (JStr ''a'') None None])) = [[]]"
proof -
  have h: "no_null (TObj JUndefined (JStr ''about'') (Some [TObj (JStr ''A'') (JStr ''a'') None]))"
    by simp
  have l: "loadData \<lparr> defaultLanding = LCollapsed, defaultPath = [] \<rparr> True
       (TObj JUndefined (JStr ''about'') (Some [TObj (JStr ''A'') (JStr ''a'') None])) =
     Inr \<lparr> root = HNode (Some 0) JUndefined (JStr ''about'') None
              (Some [HNode (Some 1) (JStr ''A'') (JStr ''a'') None None]),
           selectedNode = None, onNodeSelect = True, isTreeExpanded = False, calls = [],
           timers = [] \<rparr>"
    by code_simp
  have d: "descendants (HNode (Some 0) JUndefined (JStr ''about'') None
              (Some [HNode (Some 1) (JStr ''A'') (JStr ''a'') None None])) = [[]]"
    by code_simp
  have "rendered (HNode (Some 0) JUndefined (JStr ''about'') None
              (Some [HNode (Some 1) (JStr ''A'') (JStr ''a'') None None])) = [[]]"
    using nameless_root_renders [OF h, of "\<lparr> defaultLanding = LCollapsed, defaultPath = [] \<rparr>" True]
      l d by auto
  then show ?thesis using h l by simp
qed

section \<open>Failures of loading content\<close>

text \<open>
  C3, as stated, has the title after a failure equal to the fallback name. For the
  empty name it is not: a fetch that is rejected, with the fallback name \<open>""\<close>, leaves the
  title \<open>Not Found\<close>.
\<close>

theorem loadContent_title_counterexample:
  "contentTitle (projr (loadContent example_env (JStr ''bikes'') (JStr []) FetchRejected example_panel))
     = Some ''Not Found'' \<and>
   contentTitle (projr (loadContent example_env (JStr ''bikes'') (JStr []) FetchRejected example_panel))
     \<noteq> Some (text_of (JStr []))"
  by (simp add: loadContent_def loadContent_try_def renderError_fields example_panel_def)

text \<open>
  C3, amended: \<open>loadContent\<close> never lets an exception reach its caller. When the fetch is
  rejected, the response is not ok, the body is no JSON, or \<open>renderContent\<close> raises, the
  error placeholder is rendered into every element that the page has: the title is the
  fallback name if that is a non-empty string and \<open>Not Found\<close> otherwise, the description
  is shown with the text \<open>Content could not be loaded.\<close>, the image container holds the
  placeholder image, and meta, body and footer are empty; the panel is shown, so that
  \<open>isVisible()\<close> is \<open>true\<close>, and the current slug stays as it was.
\<close>

theorem loadContent_failure:
  "\<exists>p'. loadContent e slug name res p = Inr p' \<and>
     (res = FetchRejected \<or> (\<exists>b. res = Response False b) \<or> res = Response True BadJson \<or>
      fst (loadContent_try e slug name res p) \<noteq> None \<longrightarrow>
        (contentSection p \<noteq> None \<longrightarrow> isVisible p' = Some True) \<and>
        (treeSection p \<noteq> None \<longrightarrow> treeSection p' = Some True) \<and>
        (contentTitle p \<noteq> None \<longrightarrow>
           contentTitle p' = Some (if truthy name then text_of name else ''Not Found'')) \<and>
        (contentMeta p \<noteq> None \<longrightarrow> contentMeta p' = Some []) \<and>
        (contentDescription p \<noteq> None \<longrightarrow>
           contentDescription p' = Some (''Content could not be loaded.'', ''block'')) \<and>
        (contentImageContainer p \<noteq> None \<longrightarrow>
           map_option fst (contentImageContainer p') = Some placeholder) \<and>
        (contentBody p \<noteq> None \<longrightarrow> contentBody p' = Some []) \<and>
        (contentFooter p \<noteq> None \<longrightarrow> contentFooter p' = Some []) \<and>
        currentSlug p' = currentSlug p)"
proof (cases "loadContent_try e slug name res p")
  case (Pair x p1)
  show ?thesis
  proof (cases x)
    case None
    have "\<not> (res = FetchRejected \<or> (\<exists>b. res = Response False b) \<or> res = Response True BadJson \<or>
      fst (loadContent_try e slug name res p) \<noteq> None)"
      using Pair None by (auto simp: loadContent_try_def)
    moreover have "loadContent e slug name res p = Inr p1"
      using Pair None by (simp add: loadContent_def)
    ultimately show ?thesis by blast
  next
    case (Some y)
    have k: "same_elements p p1" "currentSlug p1 = currentSlug p"
      using Pair Some loadContent_try_same by simp_all
    have l: "loadContent e slug name res p = Inr (show_panel (renderError name p1))"
      using Pair Some by (simp add: loadContent_def)
    have "(contentSection p \<noteq> None \<longrightarrow> isVisible (show_panel (renderError name p1)) = Some True)"
      "(treeSection p \<noteq> None \<longrightarrow> treeSection (show_panel (renderError name p1)) = Some True)"
      "(contentTitle p \<noteq> None \<longrightarrow> contentTitle (show_panel (renderError name p1)) =
           Some (if truthy name then text_of name else ''Not Found''))"
      "(contentMeta p \<noteq> None \<longrightarrow> contentMeta (show_panel (renderError name p1)) = Some [])"
      "(contentDescription p \<noteq> None \<longrightarrow> contentDescription (show_panel (renderError name p1)) =
           Some (''Content could not be loaded.'', ''block''))"
      "(contentImageContainer p \<noteq> None \<longrightarrow>
           map_option fst (contentImageContainer (show_panel (renderError name p1))) = Some placeholder)"
      "(contentBody p \<noteq> None \<longrightarrow> contentBody (show_panel (renderError name p1)) = Some [])"
      "(contentFooter p \<noteq> None \<longrightarrow> contentFooter (show_panel (renderError name p1)) = Some [])"
      "currentSlug (show_panel (renderError name p1)) = currentSlug p"
      using k
      by (auto simp: same_elements_def isVisible_def renderError_fields split: option.splits)
    then show ?thesis using l by simp
  qed
qed

theorem loadContent_failure_witness:
  "loadContent example_env (JStr ''bikes'') (JStr ''Bicycles'') FetchRejected example_panel =
     Inr \<lparr> contentSection = Some True, contentTitle = Some ''Bicycles'', contentMeta = Some [],
           contentDescription = Some (''Content could not be loaded.'', ''block''),
           contentImageContainer = Some (placeholder, []), contentBody = Some [],
           contentFooter = Some [], treeSection = Some True, currentSlug = JNull \<rparr> \<and>
   fst (loadContent_try example_env (JStr ''bikes'') (JStr ''Bicycles'')
      (Response True (JsonRecord (example_record\<lparr> resources :=
          Some [''Plain note'', ''http notes of 2020''] \<rparr>))) example_panel) = Some TypeError \<and>
   loadContent example_env (JStr ''bikes'') (JStr ''Bicycles'')
      (Response True (JsonRecord (example_record\<lparr> resources :=
          Some [''Plain note'', ''http notes of 2020''] \<rparr>))) example_panel =
     Inr \<lparr> contentSection = Some True, contentTitle = Some ''Bicycles'', contentMeta = Some [],
           contentDescription = Some (''Content could not be loaded.'', ''block''),
           contentImageContainer = Some (placeholder, ''none''), contentBody = Some [],
           contentFooter = Some [], treeSection = Some True, currentSlug = JNull \<rparr>"
proof -
  have a: "loadContent example_env (JStr ''bikes'') (JStr ''Bicycles'') FetchRejected example_panel =
     Inr \<lparr> contentSection = Some True, contentTitle = Some ''Bicycles'', contentMeta = Some [],
           contentDescription = Some (''Content could not be loaded.'', ''block''),
           contentImageContainer = Some (placeholder, []), contentBody = Some [],
           contentFooter = Some [], treeSection = Some True, currentSlug = JNull \<rparr>"
    by code_simp
  have b: "fst (loadContent_try example_env (JStr ''bikes'') (JStr ''Bicycles'')
      (Response True (JsonRecord (example_record\<lparr> resources :=
          Some [''Plain note'', ''http notes of 2020''] \<rparr>))) example_panel) = Some TypeError"
    by code_simp
  have c: "loadContent example_env (JStr ''bikes'') (JStr ''Bicycles'')
      (Response True (JsonRecord (example_record\<lparr> resources :=
          Some [''Plain note'', ''http notes of 2020''] \<rparr>))) example_panel =
     Inr \<lparr> contentSection = Some True, contentTitle = Some ''Bicycles'', contentMeta = Some [],
           contentDescription = Some (''Content could not be loaded.'', ''block''),
           contentImageContainer = Some (placeholder, ''none''), contentBody = Some [],
           contentFooter = Some [], treeSection = Some True, currentSlug = JNull \<rparr>"
    by code_simp
  show ?thesis
    using a b c
      loadContent_failure [of example_env "JStr ''bikes''" "JStr ''Bicycles''" FetchRejected
        example_panel]
      loadContent_failure [of example_env "JStr ''bikes''" "JStr ''Bicycles''"
        "Response True (JsonRecord (example_record\<lparr> resources :=
          Some [''Plain note'', ''http notes of 2020''] \<rparr>))" example_panel]
    by simp
qed

section \<open>The description taken from the body\<close>

text \<open>
  C6: for a record without a description whose body begins, after text nodes at most, with
  a paragraph, \<open>renderContent\<close> shows the text of that paragraph as the description and
  shows the body without that paragraph: the body element and \<open>data.content\<close> hold the
  nodes before and after it, as the browser parses them again, so with the text on
  either side of the removed paragraph in one text node. For a body with the paragraph
  "Hello world." and a second paragraph, each on a line of its own, the description is
  "Hello world." and the body shown is the second paragraph between the line breaks.
\<close>

theorem description_from_first_paragraph:
  assumes "contentDescription p \<noteq> None" and "contentBody p \<noteq> None"
    and "\<not> truthy (description data)"
    and "content data = Some (pre @ Elem ''p'' a ks # rest)"
    and "list_all is_text pre"
  shows "contentDescription (snd (snd (renderContent e (Some data) name p))) =
           Some (concat (map textContent ks), ''block'') \<and>
         contentBody (snd (snd (renderContent e (Some data) name p))) =
           Some (merge_text (pre @ rest)) \<and>
         map_option content (fst (snd (renderContent e (Some data) name p))) =
           Some (Some (merge_text (pre @ rest)))"
proof -
  let ?p2 = "renderMeta e data (renderTitle data name p)"
  have d2: "contentDescription ?p2 \<noteq> None" and b2: "contentBody ?p2 \<noteq> None"
    using assms(1,2) by (simp_all add: renderMeta_def renderTitle_def)
  let ?tmp = "merge_text pre @ Elem ''p'' a (merge_text ks) # merge_text rest"
  have tmp: "merge_text (pre @ Elem ''p'' a ks # rest) = ?tmp"
    by (rule merge_text_append_Elem)
  have pt: "list_all is_text (merge_text pre)" using assms(5) by (rule is_text_merge_text)
  have q: "query_p ?tmp = Some (Elem ''p'' a (merge_text ks))"
    using pt by (rule query_p_after_text)
  have rm: "merge_text (remove_p ?tmp) = merge_text (pre @ rest)"
    using remove_p_after_text [OF pt] by (simp add: merge_text_append_left merge_text_append_right)
  let ?data3 = "data\<lparr> content := Some (merge_text (pre @ rest)) \<rparr>"
  let ?p3 = "set_description (concat (map textContent ks)) ''block'' ?p2"
  have rd: "renderDescription data ?p2 = (?data3, ?p3)"
    using d2 assms(3,4) tmp q rm
    by (auto simp: renderDescription_def textContent_merge_text simp del: merge_text.simps)
  let ?p5 = "renderBody ?data3 (renderImage ?data3 ?p3)"
  have d5: "contentDescription ?p5 = Some (concat (map textContent ks), ''block'')"
    using d2 by (auto simp: renderBody_def renderImage_def)
  have b5: "contentBody ?p5 = Some (merge_text (pre @ rest))"
    using b2 by (auto simp: renderBody_def renderImage_def merge_text_idem)
  have rc: "renderContent e (Some data) name p =
      (case renderFooter e ?data3 ?p5 of Inl x \<Rightarrow> (Some x, Some ?data3, ?p5)
       | Inr p6 \<Rightarrow> (None, Some ?data3, p6))"
    using rd by (simp add: renderContent_def Let_def)
  show ?thesis
    unfolding rc using d5 b5
    by (auto simp: renderFooter_result split: sum.splits)
qed

theorem description_from_first_paragraph_witness:
  "contentDescription (snd (snd (renderContent example_env (Some example_record) (JStr ''Bicycles'')
       example_panel))) = Some (''Hello world.'', ''block'') \<and>
   contentBody (snd (snd (renderContent example_env (Some example_record) (JStr ''Bicycles'')
       example_panel))) =
     Some [Text [CHR 0x0A, CHR 0x0A], Elem ''p'' [] [Text ''More text.''], Text [CHR 0x0A]]"
proof -
  have m: "merge_text ([Text nl] @ [Text nl, Elem ''p'' [] [Text ''More text.''], Text nl]) =
           [Text [CHR 0x0A, CHR 0x0A], Elem ''p'' [] [Text ''More text.''], Text [CHR 0x0A]]"
    by code_simp
  show ?thesis
    using description_from_first_paragraph [of example_panel example_record "[Text nl]" "[]"
        "[Text ''Hello world.'']" "[Text nl, Elem ''p'' [] [Text ''More text.''], Text nl]"
        example_env "JStr ''Bicycles''"] m
    by (simp add: example_panel_def example_record_def del: merge_text.simps)
qed

section \<open>The resources of the footer\<close>

text \<open>
  C7, as stated, fails on three inputs. The test of the code is \<open>startsWith('http')\<close>: an
  \<open>ftp\<close> URL begins with a scheme and is rendered as the plain item. \<open>new URL\<close> raises for
  an item that begins with \<open>http\<close> and is no URL: of the list
  \<open>["Plain note", "http notes of 2020"]\<close>, in which no item begins with a scheme, no item
  is rendered. And \<open>replace('www.', '')\<close> takes out the first \<open>www.\<close> wherever it stands:
  the hostname \<open>api.www.example.com\<close>, which has no leading \<open>www.\<close>, is shown as
  \<open>api.example.com\<close>.
\<close>

theorem resources_counterexample:
  \<open>spec_begins_with_scheme ''ftp://example.com/file'' \<and>
   resourceItem example_env ''ftp://example.com/file'' = Inr ''<li>ftp://example.com/file</li>'' \<and>
   \<not> spec_begins_with_scheme ''Plain note'' \<and>
   \<not> spec_begins_with_scheme ''http notes of 2020'' \<and>
   resourceItems example_env [''Plain note'', ''http notes of 2020''] = Inl TypeError \<and>
   spec_begins_with_scheme ''https://api.www.example.com/docs'' \<and>
   hostname example_env ''https://api.www.example.com/docs'' = Some ''api.www.example.com'' \<and>
   spec_bare_domain ''api.www.example.com'' = ''api.www.example.com'' \<and>
   resourceItem example_env ''https://api.www.example.com/docs'' =
     Inr ''<li><a href="https://api.www.example.com/docs" target="_blank">api.example.com</a></li>''\<close>
  by code_simp


text \<open>
  C7, amended: for every record in whose resources list each item that begins with
  \<open>http\<close> is a URL, with \<open>www.\<close> nowhere in its hostname but at the front, each item of the
  list that begins with \<open>http\<close> is rendered as a link whose display text is the bare
  domain (the hostname with a leading \<open>www.\<close> stripped), and every other item is rendered
  as plain text; the footer holds these items in its resources block and nothing is
  raised. In particular
  \<open>["https://example.com/page", "Just a note"]\<close> gives one link with the text
  \<open>example.com\<close> and the item \<open>Just a note\<close>. What the code does for a list outside this
  condition is not part of the statement.
\<close>

theorem resources_rendered:
  assumes "contentFooter p \<noteq> None" and "resources data = Some rs" and "rs \<noteq> []"
    and "list_all (\<lambda>r. prefix ''http'' r \<longrightarrow>
           (case hostname e r of None \<Rightarrow> False | Some h \<Rightarrow> prefix ''www.'' h \<or> \<not> has_www h)) rs"
  shows \<open>resourceItems e rs =
           Inr (map (\<lambda>r. if prefix ''http'' r
                          then ''<li><a href="'' @ r @ ''" target="_blank">'' @
                               spec_bare_domain (the (hostname e r)) @ ''</a></li>''
                          else ''<li>'' @ r @ ''</li>'') rs) \<and>
         fst (renderContent e (Some data) name p) = None \<and>
         contentFooter (snd (snd (renderContent e (Some data) name p))) =
           Some (referencesHtml data @
                 nl @ spaces 10 @ ''<div class="content-resources">'' @
                 nl @ spaces 12 @ ''<span class="content-references-label">resources</span>'' @
                 nl @ spaces 12 @ ''<ul class="content-references-list">'' @
                 concat (projr (resourceItems e rs)) @ ''</ul>'' @
                 nl @ spaces 10 @ ''</div>'' @ nl @ spaces 8) \<and>
         (hostname e ''https://example.com/page'' = Some ''example.com'' \<longrightarrow>
            resourceItems e [''https://example.com/page'', ''Just a note''] =
              Inr [''<li><a href="https://example.com/page" target="_blank">example.com</a></li>'',
                   ''<li>Just a note</li>''])\<close>
proof -
  let ?item = \<open>\<lambda>r. if prefix ''http'' r
                          then ''<li><a href="'' @ r @ ''" target="_blank">'' @
                               spec_bare_domain (the (hostname e r)) @ ''</a></li>''
                          else ''<li>'' @ r @ ''</li>''\<close>
  have parse: "list_all (\<lambda>r. prefix ''http'' r \<longrightarrow> hostname e r \<noteq> None) rs"
    using assms(4) by (auto simp: list_all_iff split: option.splits)
  have "projr (resourceItem e r) = ?item r" if "r \<in> set rs" for r
  proof (cases "prefix ''http'' r")
    case False
    then show ?thesis by (simp add: resourceItem_def)
  next
    case True
    have "case hostname e r of None \<Rightarrow> False | Some h \<Rightarrow> prefix ''www.'' h \<or> \<not> has_www h"
      using assms(4) that True by (simp add: list_all_iff)
    then obtain h where h: "hostname e r = Some h" "prefix ''www.'' h \<or> \<not> has_www h"
      by (cases "hostname e r") auto
    then show ?thesis using True replace_www_bare [OF h(2)] by (simp add: resourceItem_def)
  qed
  then have "map (\<lambda>r. projr (resourceItem e r)) rs = map ?item rs"
    by simp
  then have c1: "resourceItems e rs = Inr (map ?item rs)"
    using resourceItems_map [OF parse] by simp
  obtain data3 p3 where rd:
    "renderDescription data (renderMeta e data (renderTitle data name p)) = (data3, p3)"
    by (cases "renderDescription data (renderMeta e data (renderTitle data name p))")
  have f3: "contentFooter p3 \<noteq> None"
    using renderDescription_footer(1) [of data "renderMeta e data (renderTitle data name p)"]
      rd assms(1) by (simp add: renderMeta_def renderTitle_def)
  have r3: "resources data3 = Some rs" and g3: "references data3 = references data"
    using renderDescription_footer(2,3) [of data "renderMeta e data (renderTitle data name p)"]
      rd assms(2) by simp_all
  let ?p5 = "renderBody data3 (renderImage data3 p3)"
  have f5: "contentFooter ?p5 \<noteq> None"
    using f3 by (simp add: renderBody_def renderImage_def)
  have rh: "referencesHtml data3 = referencesHtml data"
    using g3 by (simp add: referencesHtml_def)
  have rc: "renderContent e (Some data) name p =
      (case renderFooter e data3 ?p5 of Inl x \<Rightarrow> (Some x, Some data3, ?p5)
       | Inr p6 \<Rightarrow> (None, Some data3, p6))"
    using rd by (simp add: renderContent_def Let_def)
  have c2: \<open>fst (renderContent e (Some data) name p) = None \<and>
         contentFooter (snd (snd (renderContent e (Some data) name p))) =
           Some (referencesHtml data @
                 nl @ spaces 10 @ ''<div class="content-resources">'' @
                 nl @ spaces 12 @ ''<span class="content-references-label">resources</span>'' @
                 nl @ spaces 12 @ ''<ul class="content-references-list">'' @
                 concat (projr (resourceItems e rs)) @ ''</ul>'' @
                 nl @ spaces 10 @ ''</div>'' @ nl @ spaces 8)\<close>
    unfolding rc using f5 r3 assms(3) c1 rh
    by (auto simp: renderFooter_def resourcesHtml_def split: option.splits)
  have c4: \<open>hostname e ''https://example.com/page'' = Some ''example.com'' \<longrightarrow>
            resourceItems e [''https://example.com/page'', ''Just a note''] =
              Inr [''<li><a href="https://example.com/page" target="_blank">example.com</a></li>'',
                   ''<li>Just a note</li>'']\<close>
    by (simp add: resourceItem_def)
  show ?thesis using c1 c2 c4 by blast
qed

theorem resources_rendered_witness:
  \<open>hostname example_env ''https://example.com/page'' = Some ''example.com'' \<and>
   \<not> has_www ''example.com'' \<and>
   resourceItems example_env [''https://example.com/page'', ''Just a note''] =
     Inr [''<li><a href="https://example.com/page" target="_blank">example.com</a></li>'',
          ''<li>Just a note</li>''] \<and>
   fst (renderContent example_env (Some example_record) (JStr ''Bicycles'') example_panel) = None\<close>
proof -
  have h1: "contentFooter example_panel \<noteq> None" by (simp add: example_panel_def)
  have h2: "resources example_record = Some [''https://example.com/page'', ''Just a note'']"
    by (simp add: example_record_def)
  have h3: "[''https://example.com/page'', ''Just a note''] \<noteq> []" by simp
  have a: "hostname example_env ''https://example.com/page'' = Some ''example.com''"
    by (simp add: example_env_def example_hostname_def)
  have b: "\<not> has_www ''example.com''" by simp
  have h4: "list_all (\<lambda>r. prefix ''http'' r \<longrightarrow>
           (case hostname example_env r of None \<Rightarrow> False
            | Some h \<Rightarrow> prefix ''www.'' h \<or> \<not> has_www h))
           [''https://example.com/page'', ''Just a note'']"
    using a by simp
  note t = resources_rendered [OF h1 h2 h3 h4, of "JStr ''Bicycles''"]
  have c: "fst (renderContent example_env (Some example_record) (JStr ''Bicycles'') example_panel) = None"
    using t by blast
  have d: \<open>resourceItems example_env [''https://example.com/page'', ''Just a note''] =
     Inr [''<li><a href="https://example.com/page" target="_blank">example.com</a></li>'',
          ''<li>Just a note</li>'']\<close>
    using t a by blast
  show ?thesis using a b c d by blast
qed

end
